theory Spec2Isabelle
  imports Complex_Main "HOL-Library.Multiset" "HOL-Library.List_Lexorder" "HOL-Library.Char_ord"
begin

section \<open>Strings\<close>

text \<open>
  A \<^typ>\<open>char\<close> stands for one UTF-16 code unit below 256 (the Latin-1 range), which is
  where every literal of the program lives. \<open>is_ws\<close> is the class \<open>\s\<close> of the regular
  expressions and the set that \<open>trim\<close> strips: TAB, LF, VT, FF, CR, SPACE and NBSP.
  \<open>lower_char\<close> is \<open>toLowerCase\<close> on that range.
\<close>

definition is_ws :: "char \<Rightarrow> bool" where
  "is_ws c = ((of_char c :: nat) \<in> {9, 10, 11, 12, 13, 32, 160})"

definition is_digit :: "char \<Rightarrow> bool" where
  "is_digit c = (48 \<le> (of_char c :: nat) \<and> (of_char c :: nat) \<le> 57)"

definition lower_char :: "char \<Rightarrow> char" where
  "lower_char c =
     (let n = (of_char c :: nat)
      in if (65 \<le> n \<and> n \<le> 90) \<or> (192 \<le> n \<and> n \<le> 222 \<and> n \<noteq> 215)
         then char_of (n + 32) else c)"

definition toLowerCase :: "string \<Rightarrow> string" where
  "toLowerCase s = map lower_char s"

definition trimStart :: "string \<Rightarrow> string" where
  "trimStart s = dropWhile is_ws s"

definition trimEnd :: "string \<Rightarrow> string" where
  "trimEnd s = rev (dropWhile is_ws (rev s))"

definition trim :: "string \<Rightarrow> string" where
  "trim s = trimEnd (trimStart s)"

text \<open>The test \<open>/^\d+$/\<close>: one or more decimal digits and nothing else.\<close>

definition all_digits :: "string \<Rightarrow> bool" where
  "all_digits s = (s \<noteq> [] \<and> list_all is_digit s)"

text \<open>\<open>parseInt(s, 10)\<close> on a string that passed \<open>all_digits\<close>.\<close>

definition parseInt :: "string \<Rightarrow> nat" where
  "parseInt s = foldl (\<lambda>n c. 10 * n + ((of_char c :: nat) - 48)) 0 s"

section \<open>Arrays\<close>

text \<open>\<open>Array.prototype.find\<close> is \<^const>\<open>find\<close>; \<open>findIndex\<close> returns \<open>None\<close> for -1.\<close>

fun findIndex :: "('a \<Rightarrow> bool) \<Rightarrow> 'a list \<Rightarrow> nat option" where
  "findIndex P [] = None"
| "findIndex P (x # xs) =
     (if P x then Some 0 else map_option Suc (findIndex P xs))"

text \<open>
  \<open>Array.prototype.sort\<close> with a comparator is stable: for a consistent comparator the
  result is the stable insertion below. For a comparator that is not consistent the
  language leaves the order to the implementation; a comparator result of NaN counts
  as \<open>+0\<close>.
\<close>

fun insort_cmp :: "('a \<Rightarrow> 'a \<Rightarrow> int) \<Rightarrow> 'a \<Rightarrow> 'a list \<Rightarrow> 'a list" where
  "insort_cmp cmp x [] = [x]"
| "insort_cmp cmp x (y # ys) =
     (if cmp x y \<le> 0 then x # y # ys else y # insort_cmp cmp x ys)"

definition array_sort :: "('a \<Rightarrow> 'a \<Rightarrow> int) \<Rightarrow> 'a list \<Rightarrow> 'a list" where
  "array_sort cmp xs = foldr (insort_cmp cmp) xs []"

text \<open>
  Where a comparator can return NaN (the comparators on dates below) it is not consistent,
  and the order that \<open>Array.prototype.sort\<close> gives is the engine's own. There the sort is a
  parameter of the model, and \<open>sort_contract\<close> is what is assumed of it: the result is a
  permutation of the array, and it is in order whenever the comparator is consistent on the
  elements of the array.
\<close>

definition consistent_on :: "('a \<Rightarrow> 'a \<Rightarrow> int) \<Rightarrow> 'a set \<Rightarrow> bool" where
  "consistent_on cmp A =
     ((\<forall>a \<in> A. \<forall>b \<in> A. (cmp a b < 0) = (0 < cmp b a) \<and> (cmp a b = 0) = (cmp b a = 0))
      \<and> (\<forall>a \<in> A. \<forall>b \<in> A. \<forall>c \<in> A. cmp a b \<le> 0 \<and> cmp b c \<le> 0 \<longrightarrow> cmp a c \<le> 0))"

definition sort_contract :: "(('a \<Rightarrow> 'a \<Rightarrow> int) \<Rightarrow> 'a list \<Rightarrow> 'a list) \<Rightarrow> bool" where
  "sort_contract srt =
     (\<forall>cmp xs. mset (srt cmp xs) = mset xs
        \<and> (consistent_on cmp (set xs) \<longrightarrow> sorted_wrt (\<lambda>a b. cmp a b \<le> 0) (srt cmp xs)))"

text \<open>
  \<open>new Date(a).getTime() - new Date(b).getTime()\<close>: \<open>date_ms\<close> is the parse of a date
  string to milliseconds, \<open>None\<close> for an invalid date (NaN).
\<close>

definition date_cmp :: "(string \<Rightarrow> int option) \<Rightarrow> string \<Rightarrow> string \<Rightarrow> int" where
  "date_cmp date_ms a b =
     (case (date_ms a, date_ms b) of (Some x, Some y) \<Rightarrow> x - y | _ \<Rightarrow> 0)"

section \<open>constants.ts\<close>

text \<open>Numbers are modelled as reals: rounding of doubles is not part of the model.\<close>

definition calculateEpley1RM :: "real \<Rightarrow> real \<Rightarrow> real" where
  "calculateEpley1RM w r =
     (if r \<le> 0 \<or> w \<le> 0 then 0
      else if r = 1 then w
      else w * (1 + r / 30))"

definition DAYS_OF_WEEK :: "string list" where
  "DAYS_OF_WEEK =
     [''Sunday'', ''Monday'', ''Tuesday'', ''Wednesday'', ''Thursday'', ''Friday'', ''Saturday'']"

section \<open>types.ts\<close>

record Exercise =
  ex_id :: string
  ex_name :: string

record ExerciseSet =
  setNumber :: int
  weight :: string
  reps :: string
  completed :: bool

record LoggedExercise =
  le_exerciseId :: string
  le_name :: string
  le_sets :: "ExerciseSet list"
  le_notes :: "string option"

record DailyLog =
  log_date :: string
  log_exercises :: "LoggedExercise list"

record WeeklyTemplateExercise =
  wte_exerciseId :: string
  wte_targetSets :: int
  wte_targetReps :: "string option"
  wte_originalIndex :: "int option"

record WeeklyTemplateDay =
  dayOfWeek :: int
  day_exercises :: "WeeklyTemplateExercise list"

record Group =
  group_id :: string
  group_name :: string
  ownerId :: string
  inviteCode :: string
  sharedTemplate :: "WeeklyTemplateDay list"
  lastUpdated :: string

record AppData =
  userId :: string
  exercises :: "Exercise list"
  weeklyTemplate :: "WeeklyTemplateDay list"
  dailyLogs :: "DailyLog list"
  groups :: "Group list"
  activeSyncedGroupId :: "string option"

record 'n OneRepMaxDataPoint =
  point_date :: string
  exerciseName :: string
  predicted1RM :: 'n

record ParsedCSVExercisePlanItem =
  item_name :: string
  targetSets :: nat
  targetReps :: "string option"
  originalIndex :: "nat option"

text \<open>Truthiness of an optional string: \<open>undefined\<close> and the empty string are falsy.\<close>

definition truthy :: "string option \<Rightarrow> bool" where
  "truthy v = (case v of None \<Rightarrow> False | Some s \<Rightarrow> s \<noteq> [])"

section \<open>The data service: template and sync state\<close>

definition updateWeeklyTemplate :: "AppData \<Rightarrow> WeeklyTemplateDay list \<Rightarrow> AppData" where
  "updateWeeklyTemplate data newTemplate =
     data\<lparr>weeklyTemplate := newTemplate, activeSyncedGroupId := None\<rparr>"

definition desyncActiveGroup :: "AppData \<Rightarrow> AppData" where
  "desyncActiveGroup data =
     (if truthy (activeSyncedGroupId data) then data\<lparr>activeSyncedGroupId := None\<rparr>
      else data)"

text \<open>
  The deep copy \<open>JSON.parse(JSON.stringify(t))\<close> of a template is the template itself
  in a model of values.
\<close>

definition applyGroupTemplateToUser :: "AppData \<Rightarrow> string \<Rightarrow> AppData" where
  "applyGroupTemplateToUser appData groupId =
     (case find (\<lambda>g. group_id g = groupId) (groups appData) of
        None \<Rightarrow> appData
      | Some g \<Rightarrow> appData\<lparr>weeklyTemplate := sharedTemplate g,
                           activeSyncedGroupId := Some (group_id g)\<rparr>)"

section \<open>The data service: daily logs\<close>

definition upsertDailyLog ::
  "((DailyLog \<Rightarrow> DailyLog \<Rightarrow> int) \<Rightarrow> DailyLog list \<Rightarrow> DailyLog list)
     \<Rightarrow> (string \<Rightarrow> int option) \<Rightarrow> AppData \<Rightarrow> DailyLog \<Rightarrow> AppData" where
  "upsertDailyLog srt date_ms data lg =
     (let newLogs =
        (case findIndex (\<lambda>dlog. log_date dlog = log_date lg) (dailyLogs data) of
           Some i \<Rightarrow> (dailyLogs data)[i := lg]
         | None \<Rightarrow> dailyLogs data @ [lg])
      in data\<lparr>dailyLogs :=
           srt (\<lambda>a b. date_cmp date_ms (log_date a) (log_date b)) newLogs\<rparr>)"

section \<open>The data service: progress\<close>

text \<open>
  The numbers of the program are doubles. Their type is a parameter \<open>'n\<close>, linearly ordered
  (no computation below gives NaN: \<open>parseFloat\<close> returns \<open>None\<close> for it), and so are their
  operations: \<open>n_lit k\<close> is the double of the integer \<open>k\<close> (a literal, or what \<open>parseInt\<close>
  returns for the digits of \<open>k\<close>), \<open>n_mul\<close>, \<open>n_add\<close> and \<open>n_div\<close> are \<open>*\<close>, \<open>+\<close> and \<open>/\<close>,
  \<open>n_toFixed2 x\<close> is \<open>parseFloat(x.toFixed(2))\<close>.
\<close>

record 'n number_ops =
  n_lit :: "nat \<Rightarrow> 'n"
  n_mul :: "'n \<Rightarrow> 'n \<Rightarrow> 'n"
  n_add :: "'n \<Rightarrow> 'n \<Rightarrow> 'n"
  n_div :: "'n \<Rightarrow> 'n \<Rightarrow> 'n"
  n_parseFloat :: "string \<Rightarrow> 'n option"
  n_toFixed2 :: "'n \<Rightarrow> 'n"

text \<open>\<open>calculateEpley1RM\<close> of constants.ts on these numbers.\<close>

definition calculateEpley1RM_num :: "('n::linorder) number_ops \<Rightarrow> 'n \<Rightarrow> 'n \<Rightarrow> 'n" where
  "calculateEpley1RM_num ops w r =
     (if r \<le> n_lit ops 0 \<or> w \<le> n_lit ops 0 then n_lit ops 0
      else if r = n_lit ops 1 then w
      else n_mul ops w (n_add ops (n_lit ops 1) (n_div ops r (n_lit ops 30))))"

text \<open>One round of the loop over the sets of a logged exercise: the running maximum.\<close>

definition max1RM_step :: "('n::linorder) number_ops \<Rightarrow> ExerciseSet \<Rightarrow> 'n \<Rightarrow> 'n" where
  "max1RM_step ops st max1RMForDay =
     (let repsString = trim (reps st)
      in if all_digits repsString then
           (case n_parseFloat ops (weight st) of
              None \<Rightarrow> max1RMForDay
            | Some w \<Rightarrow>
                if w > n_lit ops 0 \<and> n_lit ops (parseInt repsString) > n_lit ops 0 then
                  (let current1RM = calculateEpley1RM_num ops w (n_lit ops (parseInt repsString))
                   in if current1RM > max1RMForDay then current1RM else max1RMForDay)
                else max1RMForDay)
         else max1RMForDay)"

definition calculate1RMData ::
  "('n::linorder) number_ops
     \<Rightarrow> (('n OneRepMaxDataPoint \<Rightarrow> 'n OneRepMaxDataPoint \<Rightarrow> int)
          \<Rightarrow> 'n OneRepMaxDataPoint list \<Rightarrow> 'n OneRepMaxDataPoint list)
     \<Rightarrow> (string \<Rightarrow> int option) \<Rightarrow> AppData \<Rightarrow> 'n OneRepMaxDataPoint list" where
  "calculate1RMData ops srt date_ms data =
     (let oneRMData =
        concat (map (\<lambda>lg.
          concat (map (\<lambda>loggedEx.
            (let max1RMForDay = fold (max1RM_step ops) (le_sets loggedEx) (n_lit ops 0)
             in if max1RMForDay > n_lit ops 0
                then [\<lparr>point_date = log_date lg, exerciseName = le_name loggedEx,
                       predicted1RM = n_toFixed2 ops max1RMForDay\<rparr>]
                else []))
            (log_exercises lg)))
          (dailyLogs data))
      in srt (\<lambda>a b. date_cmp date_ms (point_date a) (point_date b)) oneRMData)"

text \<open>
  The words of the specification for one logged exercise: the sets that count, their
  estimates, and the data point (if any) made of the largest estimate. The estimate at one
  repetition is the weight itself, as in \<open>calculateEpley1RM\<close>.
\<close>

definition valid_set :: "('n::linorder) number_ops \<Rightarrow> ExerciseSet \<Rightarrow> bool" where
  "valid_set ops st =
     ((case n_parseFloat ops (weight st) of None \<Rightarrow> False | Some w \<Rightarrow> w > n_lit ops 0)
      \<and> all_digits (trim (reps st)) \<and> parseInt (trim (reps st)) > 0)"

definition set_estimate :: "('n::linorder) number_ops \<Rightarrow> ExerciseSet \<Rightarrow> 'n" where
  "set_estimate ops st =
     (case n_parseFloat ops (weight st) of
        None \<Rightarrow> n_lit ops 0
      | Some w \<Rightarrow>
          if parseInt (trim (reps st)) = 1 then w
          else n_mul ops w
                 (n_add ops (n_lit ops 1)
                    (n_div ops (n_lit ops (parseInt (trim (reps st)))) (n_lit ops 30))))"

definition spec_points ::
  "('n::linorder) number_ops \<Rightarrow> DailyLog \<Rightarrow> LoggedExercise \<Rightarrow> 'n OneRepMaxDataPoint list" where
  "spec_points ops lg loggedEx =
     (let estimates = map (set_estimate ops) (filter (valid_set ops) (le_sets loggedEx))
      in if estimates = [] then []
         else [\<lparr>point_date = log_date lg, exerciseName = le_name loggedEx,
                predicted1RM = n_toFixed2 ops (Max (set estimates))\<rparr>])"

text \<open>
  What is assumed of the numbers: the double of an integer is positive exactly when the
  integer is, it is the double of 1 only for 1, and the product \<open>w * (1 + r / 30)\<close> of a positive
  weight and positive repetitions is positive.
\<close>

definition numbers_ok :: "('n::linorder) number_ops \<Rightarrow> bool" where
  "numbers_ok ops =
     ((\<forall>k. (n_lit ops 0 < n_lit ops k) = (0 < k))
      \<and> (\<forall>k. (n_lit ops k = n_lit ops 1) = (k = 1))
      \<and> (\<forall>w r. n_lit ops 0 < w \<and> n_lit ops 0 < r \<longrightarrow>
             n_lit ops 0 < n_mul ops w (n_add ops (n_lit ops 1) (n_div ops r (n_lit ops 30)))))"

text \<open>Exact real arithmetic as numbers, for examples in which every double is exact.\<close>

definition toFixed2 :: "real \<Rightarrow> real" where
  "toFixed2 x = of_int \<lfloor>x * 100 + 1 / 2\<rfloor> / 100"

definition exact_ops :: "(string \<Rightarrow> real option) \<Rightarrow> real number_ops" where
  "exact_ops parseFloat =
     \<lparr>n_lit = real, n_mul = (*), n_add = (+), n_div = (/),
      n_parseFloat = parseFloat, n_toFixed2 = toFixed2\<rparr>"

section \<open>The data service: exercises and storage\<close>

text \<open>
  \<open>localeCompare\<close> is a parameter (it depends on the locale of the host), and so is the
  identifier that \<open>generateUniqueId\<close> draws from the clock and the random generator.
\<close>

definition addExercise ::
  "(string \<Rightarrow> string \<Rightarrow> int) \<Rightarrow> string \<Rightarrow> AppData \<Rightarrow> string \<Rightarrow> AppData \<times> Exercise option" where
  "addExercise localeCompare uniqueId data name =
     (let trimmedName = trim name
      in if trimmedName = [] then (data, None)
         else
           (case find (\<lambda>ex. toLowerCase (ex_name ex) = toLowerCase trimmedName) (exercises data) of
              Some existingExercise \<Rightarrow> (data, Some existingExercise)
            | None \<Rightarrow>
                (let newExercise = \<lparr>ex_id = uniqueId, ex_name = trimmedName\<rparr>;
                     updatedExercises =
                       array_sort (\<lambda>a b. localeCompare (ex_name a) (ex_name b))
                         (exercises data @ [newExercise])
                 in (data\<lparr>exercises := updatedExercises\<rparr>, Some newExercise))))"

text \<open>
  \<open>saveData\<close> sorts \<open>data.exercises\<close> in place and writes the serialised data: the result
  is the document written.
\<close>

definition saveData :: "(string \<Rightarrow> string \<Rightarrow> int) \<Rightarrow> AppData \<Rightarrow> AppData" where
  "saveData localeCompare data =
     data\<lparr>exercises := array_sort (\<lambda>a b. localeCompare (ex_name a) (ex_name b)) (exercises data)\<rparr>"

text \<open>
  What storage can hold under the key: nothing (or the empty string), a text that is not
  JSON, the JSON \<open>null\<close>, or a document in which any field can be absent. A template day
  can be \<open>null\<close> and can lack either field.
\<close>

record PartialDay =
  pd_dayOfWeek :: "int option"
  pd_exercises :: "WeeklyTemplateExercise list option"

record PartialAppData =
  p_userId :: "string option"
  p_exercises :: "Exercise list option"
  p_weeklyTemplate :: "PartialDay option list option"
  p_dailyLogs :: "DailyLog list option"
  p_groups :: "Group list option"
  p_activeSyncedGroupId :: "string option"

datatype stored = NoItem | Unparseable | JsonNull | Document PartialAppData

datatype load_error = SyntaxError | TypeError

definition emptyDocument :: PartialAppData where
  "emptyDocument = \<lparr>p_userId = None, p_exercises = None, p_weeklyTemplate = None,
     p_dailyLogs = None, p_groups = None, p_activeSyncedGroupId = None\<rparr>"

definition repairDay :: "PartialDay option \<Rightarrow> nat \<Rightarrow> WeeklyTemplateDay" where
  "repairDay day i =
     \<lparr>dayOfWeek = (case day of None \<Rightarrow> int i
                    | Some p \<Rightarrow> (case pd_dayOfWeek p of None \<Rightarrow> int i | Some n \<Rightarrow> n)),
      day_exercises = (case day of None \<Rightarrow> []
                    | Some p \<Rightarrow> (case pd_exercises p of None \<Rightarrow> [] | Some es \<Rightarrow> es))\<rparr>"

definition loadData ::
  "(string \<Rightarrow> string \<Rightarrow> int) \<Rightarrow> string \<Rightarrow> stored \<Rightarrow> load_error + AppData" where
  "loadData localeCompare uniqueId item =
     (case (case item of NoItem \<Rightarrow> Inr emptyDocument
                       | Unparseable \<Rightarrow> Inl SyntaxError
                       | JsonNull \<Rightarrow> Inl TypeError
                       | Document p \<Rightarrow> Inr p) of
        Inl e \<Rightarrow> Inl e
      | Inr baseData \<Rightarrow>
          Inr \<lparr>userId = (if truthy (p_userId baseData)
                         then (case p_userId baseData of Some u \<Rightarrow> u | None \<Rightarrow> uniqueId)
                         else uniqueId),
               exercises = (case p_exercises baseData of
                              None \<Rightarrow> []
                            | Some es \<Rightarrow> array_sort (\<lambda>a b. localeCompare (ex_name a) (ex_name b)) es),
               weeklyTemplate = (case p_weeklyTemplate baseData of
                              None \<Rightarrow> map (\<lambda>i. \<lparr>dayOfWeek = int i, day_exercises = []\<rparr>) [0..<7]
                            | Some days \<Rightarrow>
                                if length days \<noteq> 7
                                then map (\<lambda>i. \<lparr>dayOfWeek = int i, day_exercises = []\<rparr>) [0..<7]
                                else map (\<lambda>(day, i). repairDay day i) (zip days [0..<7])),
               dailyLogs = (case p_dailyLogs baseData of None \<Rightarrow> [] | Some ls \<Rightarrow> ls),
               groups = (case p_groups baseData of None \<Rightarrow> [] | Some gs \<Rightarrow> gs),
               activeSyncedGroupId = (if truthy (p_activeSyncedGroupId baseData)
                                      then p_activeSyncedGroupId baseData else None)\<rparr>)"

section \<open>The data service: groups\<close>

text \<open>
  \<open>JSON.parse\<close> of the pasted text is a parameter. It throws (\<open>ParseFailure\<close>), gives
  \<open>null\<close>, or gives a value whose fields can each be absent (a value that is not an object
  has none of them).
\<close>

record ImportedGroup =
  i_id :: "string option"
  i_name :: "string option"
  i_ownerId :: "string option"
  i_inviteCode :: "string option"
  i_sharedTemplate :: "WeeklyTemplateDay list option"
  i_lastUpdated :: "string option"


text \<open>The basic validation: every field present and truthy (an array always is).\<close>

definition basicValidation :: "ImportedGroup \<Rightarrow> Group option" where
  "basicValidation g =
     (case (i_id g, i_name g, i_ownerId g, i_inviteCode g, i_sharedTemplate g, i_lastUpdated g) of
        (Some a, Some b, Some c, Some e, Some t, Some l) \<Rightarrow>
          if a = [] \<or> b = [] \<or> c = [] \<or> e = [] \<or> l = [] then None
          else Some \<lparr>group_id = a, group_name = b, ownerId = c, inviteCode = e,
                     sharedTemplate = t, lastUpdated = l\<rparr>
      | _ \<Rightarrow> None)"








section \<open>The plan-text parser\<close>

text \<open>\<open>s.split('\n')\<close> and \<open>s.split(/\s+/)\<close>: both give at least one piece.\<close>

fun split_on :: "char \<Rightarrow> string \<Rightarrow> string list" where
  "split_on sep [] = [[]]"
| "split_on sep (c # cs) =
     (if c = sep then [] # split_on sep cs
      else (case split_on sep cs of
              piece # pieces \<Rightarrow> (c # piece) # pieces
            | [] \<Rightarrow> [[c]]))"

function split_ws :: "string \<Rightarrow> string list" where
  "split_ws [] = [[]]"
| "split_ws (c # cs) =
     (if is_ws c then [] # split_ws (dropWhile is_ws cs)
      else (case split_ws cs of
              piece # pieces \<Rightarrow> (c # piece) # pieces
            | [] \<Rightarrow> [[c]]))"
  by pat_completeness auto
termination
  by (relation "measure length") (auto simp: le_imp_less_Suc length_dropWhile_le)

text \<open>\<open>parts.join(" ")\<close>.\<close>

fun join_space :: "string list \<Rightarrow> string" where
  "join_space [] = []"
| "join_space [p] = p"
| "join_space (p # q # ps) = p @ '' '' @ join_space (q # ps)"

text \<open>
  \<open>s.indexOf(sub, from)\<close> (\<open>None\<close> for -1), \<open>s.includes(sub)\<close>, \<open>s.endsWith(sub)\<close> and
  \<open>s.substring(a, b)\<close>, which swaps its arguments when \<open>a > b\<close> and stops at the end of \<open>s\<close>.
\<close>

definition indexOf :: "string \<Rightarrow> string \<Rightarrow> nat \<Rightarrow> nat option" where
  "indexOf s sub from =
     find (\<lambda>i. take (length sub) (drop i s) = sub) [from..<Suc (length s) - length sub]"

definition str_includes :: "string \<Rightarrow> string \<Rightarrow> bool" where
  "str_includes s sub = (indexOf s sub 0 \<noteq> None)"

definition endsWith :: "string \<Rightarrow> string \<Rightarrow> bool" where
  "endsWith s sub = (length sub \<le> length s \<and> drop (length s - length sub) s = sub)"

definition substring :: "string \<Rightarrow> nat \<Rightarrow> nat \<Rightarrow> string" where
  "substring s a b = take (max a b - min a b) (drop (min a b) s)"

text \<open>
  The tests \<open>/^\d+(s|ea|S|EA)?$/\<close> and
  \<open>/^(?:\d+(?:\s*(?:s|S|ea|EA|s\s*ea|S\s*EA))?)$/\<close>. The digits of a match are the longest
  run of digits at the start, since what follows them starts with no digit.
\<close>

definition potentialRepsPattern :: "string \<Rightarrow> bool" where
  "potentialRepsPattern s =
     (takeWhile is_digit s \<noteq> []
      \<and> dropWhile is_digit s \<in> {[], ''s'', ''ea'', ''S'', ''EA''})"

definition validRepPattern :: "string \<Rightarrow> bool" where
  "validRepPattern s =
     (takeWhile is_digit s \<noteq> []
      \<and> (dropWhile is_digit s = []
          \<or> (let r = dropWhile is_ws (dropWhile is_digit s)
              in r \<in> {''s'', ''S'', ''ea'', ''EA''}
                 \<or> (case r of
                       [] \<Rightarrow> False
                     | c # r' \<Rightarrow> (c = CHR ''s'' \<and> dropWhile is_ws r' = ''ea'')
                                \<or> (c = CHR ''S'' \<and> dropWhile is_ws r' = ''EA'')))))"

text \<open>
  The loop over the parts stops at the first part that is all digits (the sets) and has pushed
  the parts before it: \<open>movementParts\<close> is the longest prefix without such a part and
  \<open>setsIndex\<close> its length. \<open>repsAfterSets\<close> is the value of \<open>repsStr\<close> at the \<open>break\<close>.
\<close>

definition repsAfterSets :: "string list \<Rightarrow> nat \<Rightarrow> string option" where
  "repsAfterSets parts i =
     (if i + 1 < length parts then
        (let potentialReps = parts ! (i + 1)
         in if potentialRepsPattern potentialReps \<or> all_digits potentialReps then
              (if (all_digits potentialReps \<or> endsWith (toLowerCase potentialReps) ''s'')
                  \<and> i + 2 < length parts \<and> toLowerCase (parts ! (i + 2)) = ''ea''
                  \<and> endsWith (toLowerCase potentialReps) ''s''
               then Some (potentialReps @ '' '' @ parts ! (i + 2))
               else if all_digits potentialReps \<and> i + 2 < length parts
                       \<and> (toLowerCase (parts ! (i + 2)) = ''s''
                           \<or> toLowerCase (parts ! (i + 2)) = ''ea'')
               then Some (potentialReps @ '' '' @ parts ! (i + 2)
                          @ (if toLowerCase (parts ! (i + 2)) = ''s'' \<and> i + 3 < length parts
                                \<and> toLowerCase (parts ! (i + 3)) = ''ea''
                             then '' '' @ parts ! (i + 3) else []))
               else Some potentialReps)
            else None)
      else None)"

definition extractWorkoutFromTextBlock :: "string \<Rightarrow> ParsedCSVExercisePlanItem option" where
  "extractWorkoutFromTextBlock textBlock =
     (let blockContent = trim textBlock
      in if blockContent = [] then None
         else
           (let parts = filter (\<lambda>p. p \<noteq> []) (split_ws blockContent)
            in if length parts < 2 then None
               else
                 (let movementParts = takeWhile (\<lambda>p. \<not> all_digits p) parts;
                      setsIndex = length movementParts;
                      name = trim (join_space movementParts)
                  in if name = [] \<or> \<not> setsIndex < length parts then None
                     else
                       (let sets = parseInt (parts ! setsIndex)
                        in if sets \<le> 0 \<or> sets \<ge> 100 then None
                           else
                             (let repsStr0 = repsAfterSets parts setsIndex;
                                  repsStr1 =
                                    (case repsStr0 of
                                       None \<Rightarrow> None
                                     | Some r \<Rightarrow>
                                         if \<not> validRepPattern (trim r) \<and> \<not> all_digits (trim r)
                                         then None else Some r);
                                  repsStr2 =
                                    (if repsStr1 = None \<and> setsIndex + 1 < length parts
                                        \<and> all_digits (parts ! (setsIndex + 1))
                                     then Some (parts ! (setsIndex + 1)) else repsStr1)
                              in Some \<lparr>item_name = name, targetSets = sets,
                                        targetReps = (case repsStr2 of
                                                        None \<Rightarrow> None
                                                      | Some r \<Rightarrow> if r = [] then None
                                                                  else Some (trim r)),
                                        originalIndex = None\<rparr>)))))"

text \<open>The lines of the pasted text.\<close>

definition plan_lines :: "string \<Rightarrow> string list" where
  "plan_lines rawText = map trimEnd (split_on (CHR 0x0A) (trim rawText))"

text \<open>
  The search for a line that is a weekday name, over the first lines paired with their
  indices: the result is the weekday and the index of the line.
\<close>

fun detectDay :: "(nat \<times> string) list \<Rightarrow> (nat \<times> nat) option" where
  "detectDay [] = None"
| "detectDay ((i, line) # rest) =
     (let lineContent = trim line
      in case findIndex (\<lambda>day. toLowerCase day = toLowerCase lineContent) DAYS_OF_WEEK of
           None \<Rightarrow> detectDay rest
         | Some dayIndex \<Rightarrow>
             (let parts = split_ws lineContent
              in if length parts = 1
                    \<and> toLowerCase (parts ! 0) = toLowerCase (DAYS_OF_WEEK ! dayIndex)
                 then Some (dayIndex, i)
                 else detectDay rest))"

text \<open>The two searches for the header row, from a start index.\<close>

definition findLineFrom :: "(string \<Rightarrow> bool) \<Rightarrow> nat \<Rightarrow> string list \<Rightarrow> nat option" where
  "findLineFrom P start lines = map_option (\<lambda>k. start + k) (findIndex P (drop start lines))"

definition findHeader :: "nat \<Rightarrow> string list \<Rightarrow> nat option" where
  "findHeader searchStartForHeader lines =
     (case findLineFrom
             (\<lambda>l. str_includes (toLowerCase l) ''movement'' \<and> str_includes (toLowerCase l) ''sets''
                  \<and> str_includes (toLowerCase l) ''reps'')
             searchStartForHeader lines of
        Some i \<Rightarrow> Some i
      | None \<Rightarrow>
          findLineFrom
            (\<lambda>l. str_includes (toLowerCase l) ''movement'' \<and> str_includes (toLowerCase l) ''sets'')
            searchStartForHeader lines)"

text \<open>The loop over the data lines when a weekday was detected, with its counter.\<close>

fun collectDay :: "nat \<Rightarrow> string list \<Rightarrow> ParsedCSVExercisePlanItem list" where
  "collectDay exerciseCounterForDay [] = []"
| "collectDay exerciseCounterForDay (currentLine # rest) =
     (if trim currentLine = [] then collectDay exerciseCounterForDay rest
      else (case extractWorkoutFromTextBlock currentLine of
              None \<Rightarrow> collectDay exerciseCounterForDay rest
            | Some parsedItemBase \<Rightarrow>
                parsedItemBase\<lparr>originalIndex := Some exerciseCounterForDay\<rparr>
                  # collectDay (Suc exerciseCounterForDay) rest))"

text \<open>The \<open>while\<close> loop that collects the positions of \<open>movement\<close> in the lowercased header.\<close>

function colStartsFrom :: "string \<Rightarrow> nat \<Rightarrow> nat list" where
  "colStartsFrom header from =
     (case indexOf header ''movement'' from of
        None \<Rightarrow> []
      | Some currentPos \<Rightarrow> currentPos # colStartsFrom header (currentPos + 1))"
  by pat_completeness auto
termination
proof (relation "measure (\<lambda>(header, from). Suc (length header) - from)")
  fix header :: string and start currentPos :: nat
  assume "indexOf header ''movement'' start = Some currentPos"
  then have "currentPos \<in> set [start..<Suc (length header) - length ''movement'']"
    unfolding indexOf_def find_Some_iff by (metis nth_mem)
  then show "((header, currentPos + 1), (header, start))
               \<in> measure (\<lambda>(header, from). Suc (length header) - from)"
    by auto
qed simp

declare colStartsFrom.simps [simp del]

definition dayOrderForColumns :: "nat list" where
  "dayOrderForColumns = [1, 2, 4, 5]"

text \<open>A column definition is (day of the week, start, end).\<close>

definition columnDefinitions :: "string \<Rightarrow> nat list \<Rightarrow> (nat \<times> nat \<times> nat) list" where
  "columnDefinitions headerLineContent colStarts =
     map (\<lambda>i. (dayOrderForColumns ! i, colStarts ! i,
               if i + 1 < length colStarts then colStarts ! (i + 1) - 1
               else length headerLineContent))
       [0..<min (length colStarts) (length dayOrderForColumns)]"

definition columnBlock :: "string \<Rightarrow> nat \<Rightarrow> nat \<Rightarrow> string" where
  "columnBlock currentLine start end' =
     substring currentLine (min start (length currentLine)) (min (end' + 1) (length currentLine))"

definition processColumn ::
  "string \<Rightarrow> nat \<times> nat \<times> nat \<Rightarrow> (nat \<Rightarrow> ParsedCSVExercisePlanItem list)
     \<Rightarrow> (nat \<Rightarrow> ParsedCSVExercisePlanItem list)" where
  "processColumn currentLine colDef tempExercisesByDay =
     (case colDef of (day, start, end') \<Rightarrow>
        (case extractWorkoutFromTextBlock (columnBlock currentLine start end') of
           None \<Rightarrow> tempExercisesByDay
         | Some parsedItemBase \<Rightarrow>
             tempExercisesByDay
               (day := tempExercisesByDay day
                  @ [parsedItemBase\<lparr>originalIndex :=
                       Some (length (tempExercisesByDay day))\<rparr>])))"

definition processLine ::
  "(nat \<times> nat \<times> nat) list \<Rightarrow> string \<Rightarrow> (nat \<Rightarrow> ParsedCSVExercisePlanItem list)
     \<Rightarrow> (nat \<Rightarrow> ParsedCSVExercisePlanItem list)" where
  "processLine columnDefs currentLine tempExercisesByDay =
     (if trim currentLine = [] then tempExercisesByDay
      else fold (processColumn currentLine) columnDefs tempExercisesByDay)"

text \<open>
  The plan is a map from weekday to items. \<open>tempExercisesByDay\<close> starts with an empty list
  for each of the seven weekdays; a weekday gets a key in the result when its list is not
  empty.
\<close>

definition parseFullWorkoutPlanFromText ::
  "string \<Rightarrow> (nat \<rightharpoonup> ParsedCSVExercisePlanItem list)" where
  "parseFullWorkoutPlanFromText rawText =
     (let lines = plan_lines rawText;
          detected = detectDay (enumerate 0 (take 5 lines));
          searchStartForHeader = (case detected of None \<Rightarrow> 0 | Some (d, i) \<Rightarrow> i + 1)
      in case findHeader searchStartForHeader lines of
           None \<Rightarrow> Map.empty
         | Some headerLineIndex \<Rightarrow>
             (let headerLineContent = lines ! headerLineIndex;
                  dataLines = drop (headerLineIndex + 1) lines
              in case detected of
                   Some (detectedDayOfWeek, i) \<Rightarrow>
                     [detectedDayOfWeek \<mapsto> collectDay 0 dataLines]
                 | None \<Rightarrow>
                     (let colStarts = colStartsFrom (toLowerCase headerLineContent) 0
                      in if colStarts = [] then Map.empty
                         else
                           (let tempExercisesByDay =
                                  fold (processLine (columnDefinitions headerLineContent colStarts))
                                    dataLines (\<lambda>dayKey. [])
                            in (\<lambda>dayKey.
                                  if dayKey < length DAYS_OF_WEEK \<and> tempExercisesByDay dayKey \<noteq> []
                                  then Some (tempExercisesByDay dayKey) else None)))))"

section \<open>The parser in the words of the specification\<close>

text \<open>
  The weekday that a line names: the line, trimmed, is a weekday name up to case. The header
  test of the second search. The positions of \<open>movement\<close> in a header, from left to right.
  The items of the data lines that are not blank. Items tagged with consecutive indices from
  \<open>n\<close>.
\<close>

definition weekday_of :: "string \<Rightarrow> nat option" where
  "weekday_of line = findIndex (\<lambda>day. toLowerCase day = toLowerCase (trim line)) DAYS_OF_WEEK"

definition mentions_movement_sets :: "string \<Rightarrow> bool" where
  "mentions_movement_sets line =
     (str_includes (toLowerCase line) ''movement'' \<and> str_includes (toLowerCase line) ''sets'')"

text \<open>
  The header row, searched from the first line: the first line that mentions \<open>movement\<close>,
  \<open>sets\<close> and \<open>reps\<close>, or, when no line does, the first that mentions \<open>movement\<close> and
  \<open>sets\<close>.
\<close>

definition header_row :: "string list \<Rightarrow> nat \<Rightarrow> bool" where
  "header_row lines h =
     (h < length lines \<and> mentions_movement_sets (lines ! h)
      \<and> (if \<exists>k < length lines. mentions_movement_sets (lines ! k)
                  \<and> str_includes (toLowerCase (lines ! k)) ''reps''
          then str_includes (toLowerCase (lines ! h)) ''reps''
               \<and> (\<forall>k < h. \<not> (mentions_movement_sets (lines ! k)
                            \<and> str_includes (toLowerCase (lines ! k)) ''reps''))
          else (\<forall>k < h. \<not> mentions_movement_sets (lines ! k))))"

definition occurrences :: "string \<Rightarrow> nat list" where
  "occurrences header =
     filter (\<lambda>i. take (length ''movement'') (drop i header) = ''movement'') [0..<length header]"

definition extracted_items :: "string list \<Rightarrow> ParsedCSVExercisePlanItem list" where
  "extracted_items dataLines =
     List.map_filter extractWorkoutFromTextBlock (filter (\<lambda>l. trim l \<noteq> []) dataLines)"

text \<open>
  The characters of a line at the positions \<open>start\<close> to \<open>end'\<close>, both included. The columns
  of a header: the first four occurrences of \<open>movement\<close> go to the weekdays 1, 2, 4 and 5;
  a column starts at its occurrence and ends at the position before the next occurrence
  (also when that one is the fifth), the column of the last occurrence at the position just
  past the header. Then the items of one column of the data lines.
\<close>

definition column_text :: "string \<Rightarrow> nat \<Rightarrow> nat \<Rightarrow> string" where
  "column_text line start end' = take (Suc end' - start) (drop start line)"

definition spec_columns :: "string \<Rightarrow> (nat \<times> nat \<times> nat) list" where
  "spec_columns header =
     (let occ = occurrences (toLowerCase header)
      in zip [1, 2, 4, 5] (zip occ (map (\<lambda>p. p - 1) (tl occ) @ [length header])))"

definition column_items :: "string list \<Rightarrow> nat \<Rightarrow> nat \<Rightarrow> ParsedCSVExercisePlanItem list" where
  "column_items dataLines start end' =
     List.map_filter (\<lambda>l. extractWorkoutFromTextBlock (column_text l start end'))
       (filter (\<lambda>l. trim l \<noteq> []) dataLines)"

definition tagged_from :: "nat \<Rightarrow> ParsedCSVExercisePlanItem list \<Rightarrow> ParsedCSVExercisePlanItem list" where
  "tagged_from n items = map (\<lambda>(i, item). item\<lparr>originalIndex := Some i\<rparr>) (enumerate n items)"

section \<open>Properties of the array helpers\<close>

lemma findIndex_None: "findIndex P xs = None \<longleftrightarrow> (\<forall>x \<in> set xs. \<not> P x)"
  by (induction xs) auto

lemma findIndex_Some:
  "findIndex P xs = Some i \<Longrightarrow> i < length xs \<and> P (xs ! i) \<and> (\<forall>j < i. \<not> P (xs ! j))"
proof (induction xs arbitrary: i)
  case Nil
  then show ?case by simp
next
  case (Cons x xs)
  show ?case
  proof (cases "P x")
    case True
    with Cons.prems show ?thesis by simp
  next
    case False
    with Cons.prems obtain k where k: "findIndex P xs = Some k" "i = Suc k"
      by auto
    from Cons.IH [OF k(1)] False k(2) show ?thesis
      by (auto simp: nth_Cons split: nat.splits)
  qed
qed

lemma mset_insort_cmp: "mset (insort_cmp cmp x xs) = add_mset x (mset xs)"
  by (induction xs) auto

lemma mset_array_sort: "mset (array_sort cmp xs) = mset xs"
  by (induction xs) (auto simp: array_sort_def mset_insort_cmp)

lemma set_insort_cmp: "set (insort_cmp cmp x xs) = insert x (set xs)"
  by (induction xs) auto

lemma set_array_sort: "set (array_sort cmp xs) = set xs"
  by (induction xs) (auto simp: array_sort_def set_insort_cmp)

lemma sorted_insort_cmp:
  assumes tot: "\<And>a b. a \<in> A \<Longrightarrow> b \<in> A \<Longrightarrow> cmp a b \<le> 0 \<or> cmp b a \<le> 0"
    and trans: "\<And>a b c. a \<in> A \<Longrightarrow> b \<in> A \<Longrightarrow> c \<in> A \<Longrightarrow> cmp a b \<le> 0 \<Longrightarrow> cmp b c \<le> 0 \<Longrightarrow> cmp a c \<le> 0"
    and "x \<in> A" and "set xs \<subseteq> A"
    and "sorted_wrt (\<lambda>a b. cmp a b \<le> 0) xs"
  shows "sorted_wrt (\<lambda>a b. cmp a b \<le> 0) (insort_cmp cmp x xs)"
  using assms(3-)
proof (induction xs)
  case Nil
  then show ?case by simp
next
  case (Cons y ys)
  show ?case
  proof (cases "cmp x y \<le> 0")
    case True
    with Cons.prems show ?thesis
      using trans [of x y] by auto
  next
    case False
    with Cons.prems tot [of x y] have "cmp y x \<le> 0" by auto
    with False Cons show ?thesis
      by (auto simp: set_insort_cmp)
  qed
qed

lemma sorted_array_sort:
  assumes tot: "\<And>a b. a \<in> A \<Longrightarrow> b \<in> A \<Longrightarrow> cmp a b \<le> 0 \<or> cmp b a \<le> 0"
    and trans: "\<And>a b c. a \<in> A \<Longrightarrow> b \<in> A \<Longrightarrow> c \<in> A \<Longrightarrow> cmp a b \<le> 0 \<Longrightarrow> cmp b c \<le> 0 \<Longrightarrow> cmp a c \<le> 0"
    and "set xs \<subseteq> A"
  shows "sorted_wrt (\<lambda>a b. cmp a b \<le> 0) (array_sort cmp xs)"
  using assms(3)
proof (induction xs)
  case Nil
  then show ?case by (simp add: array_sort_def)
next
  case (Cons x xs)
  then have srt: "sorted_wrt (\<lambda>a b. cmp a b \<le> 0) (array_sort cmp xs)" by simp
  have "sorted_wrt (\<lambda>a b. cmp a b \<le> 0) (insort_cmp cmp x (array_sort cmp xs))"
  proof (rule sorted_insort_cmp [where A = A])
    show "x \<in> A" using Cons.prems by simp
    show "set (array_sort cmp xs) \<subseteq> A" using Cons.prems by (simp add: set_array_sort)
  qed (use tot trans srt in blast)+
  then show ?case
    by (simp add: array_sort_def)
qed

lemma consistent_on_total:
  assumes "consistent_on cmp A" and "a \<in> A" and "b \<in> A"
  shows "cmp a b \<le> 0 \<or> cmp b a \<le> 0"
proof (cases "cmp a b \<le> 0")
  case True
  then show ?thesis by simp
next
  case False
  then have "0 < cmp a b" by simp
  with assms have "cmp b a < 0"
    unfolding consistent_on_def by blast
  then show ?thesis by simp
qed

lemma consistent_on_trans:
  assumes "consistent_on cmp A" and "a \<in> A" and "b \<in> A" and "c \<in> A"
    and "cmp a b \<le> 0" and "cmp b c \<le> 0"
  shows "cmp a c \<le> 0"
  using assms unfolding consistent_on_def by blast

lemma sort_contract_array_sort: "sort_contract array_sort"
  unfolding sort_contract_def
proof (intro allI conjI impI)
  fix cmp :: "'a \<Rightarrow> 'a \<Rightarrow> int" and xs :: "'a list"
  show "mset (array_sort cmp xs) = mset xs"
    by (rule mset_array_sort)
  assume c: "consistent_on cmp (set xs)"
  show "sorted_wrt (\<lambda>a b. cmp a b \<le> 0) (array_sort cmp xs)"
  proof (rule sorted_array_sort [where A = "set xs"])
    show "set xs \<subseteq> set xs" by simp
  next
    fix a b assume "a \<in> set xs" "b \<in> set xs"
    then show "cmp a b \<le> 0 \<or> cmp b a \<le> 0"
      by (rule consistent_on_total [OF c])
  next
    fix a b d assume "a \<in> set xs" "b \<in> set xs" "d \<in> set xs" "cmp a b \<le> 0" "cmp b d \<le> 0"
    then show "cmp a d \<le> 0"
      by (rule consistent_on_trans [OF c])
  qed
qed

lemma contract_mset: "sort_contract srt \<Longrightarrow> mset (srt cmp xs) = mset xs"
  by (simp add: sort_contract_def)

lemma contract_set: "sort_contract srt \<Longrightarrow> set (srt cmp xs) = set xs"
  using contract_mset [of srt cmp xs] by (metis set_mset_mset)

lemma date_cmp_Some:
  "date_ms a \<noteq> None \<Longrightarrow> date_ms b \<noteq> None \<Longrightarrow>
   date_cmp date_ms a b = the (date_ms a) - the (date_ms b)"
  by (auto simp: date_cmp_def)

lemma consistent_on_date_cmp:
  assumes "\<forall>x \<in> A. date_ms (k x) \<noteq> None"
  shows "consistent_on (\<lambda>a b. date_cmp date_ms (k a) (k b)) A"
  unfolding consistent_on_def using assms by (auto simp: date_cmp_Some)

lemma sorted_by_date:
  assumes "sort_contract srt" and "\<forall>x \<in> set xs. date_ms (k x) \<noteq> None"
  shows "sorted (map (\<lambda>x. the (date_ms (k x))) (srt (\<lambda>a b. date_cmp date_ms (k a) (k b)) xs))"
proof -
  let ?cmp = "\<lambda>a b. date_cmp date_ms (k a) (k b)"
  have "sorted_wrt (\<lambda>a b. ?cmp a b \<le> 0) (srt ?cmp xs)"
    using assms(1) consistent_on_date_cmp [OF assms(2)] unfolding sort_contract_def by blast
  moreover have "\<forall>x \<in> set (srt ?cmp xs). date_ms (k x) \<noteq> None"
    using assms by (simp add: contract_set)
  ultimately have "sorted_wrt (\<lambda>x y. the (date_ms (k x)) \<le> the (date_ms (k y))) (srt ?cmp xs)"
    by (elim sorted_wrt_mono_rel [rotated]) (simp add: date_cmp_Some)
  then show ?thesis
    by (simp add: sorted_map)
qed

lemma upsert_logs_mset:
  assumes "distinct (map log_date logs)"
  shows "mset (case findIndex (\<lambda>dlog. log_date dlog = log_date lg) logs of
           Some i \<Rightarrow> logs[i := lg] | None \<Rightarrow> logs @ [lg])
         = add_mset lg (filter_mset (\<lambda>l. log_date l \<noteq> log_date lg) (mset logs))"
  using assms
proof (induction logs)
  case Nil
  then show ?case by simp
next
  case (Cons a logs)
  show ?case
  proof (cases "log_date a = log_date lg")
    case True
    with Cons.prems have "\<forall>l \<in> set logs. log_date l \<noteq> log_date lg"
      by (auto simp: image_iff)
    then have "filter_mset (\<lambda>l. log_date l \<noteq> log_date lg) (mset logs) = mset logs"
      by (induction logs) auto
    with True show ?thesis by simp
  next
    case False
    with Cons show ?thesis
      by (cases "findIndex (\<lambda>dlog. log_date dlog = log_date lg) logs") auto
  qed
qed

lemma distinct_map_array_sort:
  "distinct (map f (array_sort cmp xs)) = distinct (map f xs)"
proof -
  have "mset (map f (array_sort cmp xs)) = mset (map f xs)"
    by (simp add: mset_array_sort)
  then show ?thesis
    by (rule mset_eq_imp_distinct_iff)
qed

lemma sorted_array_sort_total:
  assumes "\<forall>a b. cmp a b \<le> 0 \<or> cmp b a \<le> 0"
    and "\<forall>a b c. cmp a b \<le> 0 \<longrightarrow> cmp b c \<le> 0 \<longrightarrow> cmp a c \<le> (0::int)"
  shows "sorted_wrt (\<lambda>a b. cmp (k a) (k b) \<le> 0) (array_sort (\<lambda>a b. cmp (k a) (k b)) xs)"
  by (rule sorted_array_sort [where A = UNIV]) (use assms in blast)+

lemma find_unique:
  assumes "distinct (map f xs)" and "e \<in> set xs" and "f e = v"
  shows "find (\<lambda>x. f x = v) xs = Some e"
  using assms
proof (induction xs)
  case Nil
  then show ?case by simp
next
  case (Cons x xs)
  then show ?case by (auto simp: image_iff)
qed



lemma basicValidation_Some:
  "basicValidation v = Some g \<Longrightarrow>
     i_id v = Some (group_id g) \<and> i_name v = Some (group_name g) \<and> i_ownerId v = Some (ownerId g)
     \<and> i_inviteCode v = Some (inviteCode g) \<and> i_sharedTemplate v = Some (sharedTemplate g)
     \<and> i_lastUpdated v = Some (lastUpdated g)"
  by (auto simp: basicValidation_def split: option.splits if_splits)







section \<open>Properties of the progress calculator\<close>

lemma calculateEpley1RM_exact:
  "calculateEpley1RM_num (exact_ops parseFloat) w r = calculateEpley1RM w r"
  by (simp add: calculateEpley1RM_num_def calculateEpley1RM_def exact_ops_def)

lemma numbers_ok_exact: "numbers_ok (exact_ops parseFloat)"
  by (auto simp: numbers_ok_def exact_ops_def intro!: mult_pos_pos add_pos_nonneg)

lemma max1RM_step_eq:
  assumes "numbers_ok ops"
  shows "max1RM_step ops st acc =
     (if valid_set ops st then max acc (set_estimate ops st) else acc)"
proof -
  from assms have lit: "\<And>k. (n_lit ops 0 < n_lit ops k) = (0 < k)"
    and one: "\<And>k. (n_lit ops k = n_lit ops 1) = (k = 1)"
    by (simp_all add: numbers_ok_def)
  show ?thesis
  proof (cases "valid_set ops st")
    case False
    then show ?thesis
      by (auto simp: max1RM_step_def valid_set_def Let_def lit split: option.splits)
  next
    case True
    then obtain w where w: "n_parseFloat ops (weight st) = Some w" "n_lit ops 0 < w"
      and dg: "all_digits (trim (reps st))" and k: "0 < parseInt (trim (reps st))"
      by (auto simp: valid_set_def split: option.splits)
    let ?k = "parseInt (trim (reps st))"
    have n1: "\<not> n_lit ops ?k \<le> n_lit ops 0" and n2: "\<not> w \<le> n_lit ops 0"
      and p1: "n_lit ops 0 < n_lit ops ?k"
      using w k lit [of ?k] by (simp_all add: not_le)
    have "calculateEpley1RM_num ops w (n_lit ops ?k) = set_estimate ops st"
      unfolding calculateEpley1RM_num_def set_estimate_def
      by (simp only: n1 n2 one w option.case if_False simp_thms)
    with True w dg p1 show ?thesis
      by (auto simp: max1RM_step_def Let_def max_def not_less)
  qed
qed

lemma fold_max1RM_step:
  assumes "numbers_ok ops"
  shows "fold (max1RM_step ops) sets acc =
     fold max (map (set_estimate ops) (filter (valid_set ops) sets)) acc"
  by (induction sets arbitrary: acc) (simp_all add: max1RM_step_eq [OF assms] max.commute)

lemma fold_max_Max: "fold max xs (a :: 'a :: linorder) = Max (insert a (set xs))"
  using Max.set_eq_fold [of a xs] by simp

lemma set_estimate_pos:
  assumes "numbers_ok ops" and "valid_set ops st"
  shows "n_lit ops 0 < set_estimate ops st"
proof -
  from assms(2) obtain w where w: "n_parseFloat ops (weight st) = Some w" "n_lit ops 0 < w"
    and k: "0 < parseInt (trim (reps st))"
    by (auto simp: valid_set_def split: option.splits)
  from assms(1) k have "n_lit ops 0 < n_lit ops (parseInt (trim (reps st)))"
    by (simp add: numbers_ok_def)
  with assms(1) w have "n_lit ops 0 < n_mul ops w (n_add ops (n_lit ops 1)
      (n_div ops (n_lit ops (parseInt (trim (reps st)))) (n_lit ops 30)))"
    unfolding numbers_ok_def by blast
  with w show ?thesis
    by (simp add: set_estimate_def)
qed

lemma points_eq_spec:
  assumes "numbers_ok ops"
  shows "(let max1RMForDay = fold (max1RM_step ops) (le_sets loggedEx) (n_lit ops 0)
    in if max1RMForDay > n_lit ops 0
       then [\<lparr>point_date = log_date lg, exerciseName = le_name loggedEx,
              predicted1RM = n_toFixed2 ops max1RMForDay\<rparr>]
       else []) = spec_points ops lg loggedEx"
proof -
  define ests where "ests = map (set_estimate ops) (filter (valid_set ops) (le_sets loggedEx))"
  have f: "fold (max1RM_step ops) (le_sets loggedEx) (n_lit ops 0)
             = Max (insert (n_lit ops 0) (set ests))"
    by (simp add: fold_max1RM_step [OF assms] fold_max_Max ests_def)
  have pos: "\<forall>x \<in> set ests. n_lit ops 0 < x"
    by (auto simp: ests_def set_estimate_pos [OF assms])
  show ?thesis
  proof (cases "ests = []")
    case True
    with f show ?thesis
      by (simp add: spec_points_def ests_def [symmetric])
  next
    case False
    then have "Max (insert (n_lit ops 0) (set ests)) = max (n_lit ops 0) (Max (set ests))"
      by simp
    moreover have lt: "n_lit ops 0 < Max (set ests)"
      using False pos by simp
    moreover from lt have "n_lit ops 0 \<le> Max (set ests)"
      by (rule less_imp_le)
    ultimately have "Max (insert (n_lit ops 0) (set ests)) = Max (set ests)"
      "n_lit ops 0 < Max (insert (n_lit ops 0) (set ests))"
      by (simp_all add: max_absorb2)
    with f False show ?thesis
      by (simp add: spec_points_def ests_def [symmetric])
  qed
qed

section \<open>Properties of the plan-text parser\<close>

lemma is_ws_lower_char: "is_ws (lower_char c) = is_ws c"
  by (auto simp: is_ws_def lower_char_def Let_def)

lemma list_ex_ws_toLowerCase: "list_ex is_ws (toLowerCase s) = list_ex is_ws s"
  by (induction s) (simp_all add: toLowerCase_def is_ws_lower_char)

lemma split_ws_no_ws: "\<not> list_ex is_ws s \<Longrightarrow> split_ws s = [s]"
  by (induction s) simp_all

lemma weekday_no_ws: "\<forall>d \<in> set DAYS_OF_WEEK. \<not> list_ex is_ws (toLowerCase d)"
  by code_simp

lemma weekday_of_parts:
  assumes "weekday_of line = Some k"
  shows "split_ws (trim line) = [trim line]
       \<and> toLowerCase (trim line) = toLowerCase (DAYS_OF_WEEK ! k) \<and> k < length DAYS_OF_WEEK"
proof -
  from findIndex_Some [OF assms [unfolded weekday_of_def]]
  have k: "k < length DAYS_OF_WEEK" and eq: "toLowerCase (DAYS_OF_WEEK ! k) = toLowerCase (trim line)"
    by auto
  from k have "DAYS_OF_WEEK ! k \<in> set DAYS_OF_WEEK"
    by simp
  with weekday_no_ws have "\<not> list_ex is_ws (toLowerCase (DAYS_OF_WEEK ! k))"
    by blast
  then have "\<not> list_ex is_ws (trim line)"
    by (simp add: eq list_ex_ws_toLowerCase)
  then show ?thesis
    using k eq by (simp add: split_ws_no_ws)
qed

lemma detectDay_eq:
  "detectDay ps =
     (case find (\<lambda>(i, l). weekday_of l \<noteq> None) ps of
        None \<Rightarrow> None
      | Some (i, l) \<Rightarrow> map_option (\<lambda>d. (d, i)) (weekday_of l))"
proof (induction ps)
  case Nil
  then show ?case by simp
next
  case (Cons p ps)
  obtain i l where p: "p = (i, l)" by (cases p)
  show ?case
  proof (cases "weekday_of l")
    case None
    with Cons p show ?thesis
      by (simp add: weekday_of_def)
  next
    case (Some k)
    from weekday_of_parts [OF Some] Some p show ?thesis
      by (simp add: weekday_of_def)
  qed
qed

lemma detectDay_enumerate:
  "detectDay (enumerate n ls) =
     (case findIndex (\<lambda>l. weekday_of l \<noteq> None) ls of
        None \<Rightarrow> None
      | Some i \<Rightarrow> map_option (\<lambda>d. (d, n + i)) (weekday_of (ls ! i)))"
proof (induction ls arbitrary: n)
  case Nil
  then show ?case by simp
next
  case (Cons l ls)
  show ?case
  proof (cases "weekday_of l")
    case None
    have "detectDay (enumerate n (l # ls)) = detectDay (enumerate (Suc n) ls)"
      using None by (simp add: detectDay_eq)
    with Cons [of "Suc n"] None show ?thesis
      by (simp split: option.splits)
  next
    case (Some k)
    then show ?thesis
      by (simp add: detectDay_eq)
  qed
qed

lemma findLineFrom_Some:
  assumes "findLineFrom P s ls = Some h"
  shows "s \<le> h \<and> h < length ls \<and> P (ls ! h) \<and> (\<forall>k. s \<le> k \<and> k < h \<longrightarrow> \<not> P (ls ! k))"
proof -
  from assms obtain k where k: "findIndex P (drop s ls) = Some k" and h: "h = s + k"
    by (auto simp: findLineFrom_def)
  from findIndex_Some [OF k]
  have 1: "k < length ls - s" and 2: "P (drop s ls ! k)" and 3: "\<forall>j < k. \<not> P (drop s ls ! j)"
    by auto
  have "\<not> P (ls ! m)" if "s \<le> m" "m < h" for m
  proof -
    from that h have "m - s < k" by simp
    with 3 have "\<not> P (drop s ls ! (m - s))" by blast
    with that 1 h show ?thesis by simp
  qed
  with 1 2 h show ?thesis
    by auto
qed

lemma findLineFrom_None:
  "findLineFrom P s ls = None \<longleftrightarrow> (\<forall>k. s \<le> k \<and> k < length ls \<longrightarrow> \<not> P (ls ! k))"
proof -
  have "(\<forall>x \<in> set (drop s ls). \<not> P x) \<longleftrightarrow> (\<forall>k. s \<le> k \<and> k < length ls \<longrightarrow> \<not> P (ls ! k))"
  proof
    assume a: "\<forall>x \<in> set (drop s ls). \<not> P x"
    show "\<forall>k. s \<le> k \<and> k < length ls \<longrightarrow> \<not> P (ls ! k)"
    proof (intro allI impI)
      fix k assume k: "s \<le> k \<and> k < length ls"
      then have "drop s ls ! (k - s) \<in> set (drop s ls)"
        by (intro nth_mem) (simp, arith)
      with k a show "\<not> P (ls ! k)" by simp
    qed
  next
    assume a: "\<forall>k. s \<le> k \<and> k < length ls \<longrightarrow> \<not> P (ls ! k)"
    show "\<forall>x \<in> set (drop s ls). \<not> P x"
    proof
      fix x assume "x \<in> set (drop s ls)"
      then obtain j where "j < length (drop s ls)" "x = drop s ls ! j"
        by (auto simp: in_set_conv_nth)
      with a [rule_format, of "s + j"] show "\<not> P x" by simp
    qed
  qed
  then show ?thesis
    by (simp add: findLineFrom_def findIndex_None)
qed

lemma findHeader_Some:
  assumes "findHeader s ls = Some h"
  shows "s \<le> h \<and> h < length ls \<and> mentions_movement_sets (ls ! h)"
proof (cases "findLineFrom
             (\<lambda>l. str_includes (toLowerCase l) ''movement'' \<and> str_includes (toLowerCase l) ''sets''
                  \<and> str_includes (toLowerCase l) ''reps'') s ls")
  case None
  with assms have "findLineFrom
            (\<lambda>l. str_includes (toLowerCase l) ''movement'' \<and> str_includes (toLowerCase l) ''sets'')
            s ls = Some h"
    by (simp add: findHeader_def)
  from findLineFrom_Some [OF this] show ?thesis
    by (simp add: mentions_movement_sets_def)
next
  case (Some i)
  with assms have "i = h" by (simp add: findHeader_def)
  with findLineFrom_Some [OF Some] show ?thesis
    by (simp add: mentions_movement_sets_def)
qed

lemma findHeader_exists:
  assumes "s \<le> j" and "j < length ls" and "mentions_movement_sets (ls ! j)"
  shows "\<exists>h. findHeader s ls = Some h"
proof -
  have "findLineFrom
            (\<lambda>l. str_includes (toLowerCase l) ''movement'' \<and> str_includes (toLowerCase l) ''sets'')
            s ls \<noteq> None"
    using assms unfolding findLineFrom_None mentions_movement_sets_def by blast
  then show ?thesis
    by (auto simp: findHeader_def split: option.splits)
qed

lemma tagged_from_Nil [simp]: "tagged_from n [] = []"
  by (simp add: tagged_from_def)

lemma tagged_from_Cons [simp]:
  "tagged_from n (x # xs) = x\<lparr>originalIndex := Some n\<rparr> # tagged_from (Suc n) xs"
  by (simp add: tagged_from_def)

lemma length_tagged_from [simp]: "length (tagged_from n xs) = length xs"
  by (simp add: tagged_from_def)

lemma nth_tagged_from:
  "k < length xs \<Longrightarrow> tagged_from n xs ! k = (xs ! k)\<lparr>originalIndex := Some (n + k)\<rparr>"
  by (simp add: tagged_from_def nth_enumerate_eq)

lemma collectDay_eq: "collectDay n ls = tagged_from n (extracted_items ls)"
  by (induction ls arbitrary: n)
     (auto simp: extracted_items_def List.map_filter_simps split: option.splits)

lemma find_upt_Some:
  assumes "find P [a..<b] = Some p"
  shows "a \<le> p \<and> p < b \<and> P p \<and> (\<forall>k. a \<le> k \<and> k < p \<longrightarrow> \<not> P k)"
proof -
  from assms obtain i where i: "i < b - a" "P ([a..<b] ! i)" "p = [a..<b] ! i"
    and m: "\<forall>j < i. \<not> P ([a..<b] ! j)"
    by (auto simp: find_Some_iff)
  have "\<not> P k" if "a \<le> k" "k < p" for k
  proof -
    from that i have "k - a < i" by simp
    with m have "\<not> P ([a..<b] ! (k - a))" by blast
    with that i show ?thesis by simp
  qed
  with i show ?thesis
    by simp
qed

lemma filter_upt_first:
  assumes "a \<le> p" and "p < b" and "P p" and "\<forall>k. a \<le> k \<and> k < p \<longrightarrow> \<not> P k"
  shows "filter P [a..<b] = p # filter P [Suc p..<b]"
proof -
  have "[a..<b] = [a..<p] @ p # [Suc p..<b]"
    using assms(1,2) by (metis le_add_diff_inverse less_imp_le_nat upt_add_eq_append upt_conv_Cons)
  moreover have "filter P [a..<p] = []"
    using assms(4) by (simp add: filter_empty_conv)
  ultimately show ?thesis
    using assms(3) by simp
qed

lemma colStartsFrom_eq:
  "colStartsFrom header start =
     filter (\<lambda>i. take (length ''movement'') (drop i header) = ''movement'')
       [start..<Suc (length header) - length ''movement'']"
proof (induction header start rule: colStartsFrom.induct)
  case (1 header start)
  let ?P = "\<lambda>i. take (length ''movement'') (drop i header) = ''movement''"
  let ?b = "Suc (length header) - length ''movement''"
  show ?case
  proof (cases "indexOf header ''movement'' start")
    case None
    then have "\<forall>x \<in> set [start..<?b]. \<not> ?P x"
      unfolding indexOf_def find_None_iff by blast
    then have "filter ?P [start..<?b] = []"
      unfolding filter_empty_conv by blast
    with None show ?thesis
      by (subst colStartsFrom.simps) simp
  next
    case (Some p)
    then have "find ?P [start..<?b] = Some p"
      by (simp add: indexOf_def)
    from find_upt_Some [OF this]
    have "filter ?P [start..<?b] = p # filter ?P [Suc p..<?b]"
      by (intro filter_upt_first) auto
    with Some "1.IH" [OF Some] show ?thesis
      by (subst colStartsFrom.simps) simp
  qed
qed

lemma no_match_near_end:
  assumes "Suc (length h) - length sub \<le> i" and "i < length h"
  shows "take (length sub) (drop i h) \<noteq> sub"
proof
  assume "take (length sub) (drop i h) = sub"
  then have "length (take (length sub) (drop i h)) = length sub"
    by simp
  then have "length sub \<le> length h - i"
    by simp
  with assms show False
    by arith
qed

lemma colStartsFrom_occurrences: "colStartsFrom header 0 = occurrences header"
proof -
  let ?P = "\<lambda>i. take (length ''movement'') (drop i header) = ''movement''"
  let ?b = "Suc (length header) - length ''movement''"
  have "?b \<le> length header"
    by simp
  then have "[0..<length header] = [0..<?b] @ [?b..<length header]"
    by (metis le_add_diff_inverse upt_add_eq_append zero_le)
  moreover have "filter ?P [?b..<length header] = []"
    unfolding filter_empty_conv
  proof
    fix i assume "i \<in> set [?b..<length header]"
    then have "?b \<le> i" and "i < length header"
      by (simp_all only: set_upt atLeastLessThan_iff)
    then show "\<not> ?P i"
      by (rule no_match_near_end)
  qed
  ultimately have "filter ?P [0..<length header] = filter ?P [0..<?b]"
    by simp
  then show ?thesis
    unfolding occurrences_def colStartsFrom_eq by simp
qed

lemma fold_processColumn:
  assumes "distinct (map fst cols)"
  shows "fold (processColumn line) cols temp d =
     (case find (\<lambda>c. fst c = d) cols of
        None \<Rightarrow> temp d
      | Some (d', s, e) \<Rightarrow>
          (case extractWorkoutFromTextBlock (columnBlock line s e) of
             None \<Rightarrow> temp d
           | Some item \<Rightarrow> temp d @ [item\<lparr>originalIndex := Some (length (temp d))\<rparr>]))"
  using assms
proof (induction cols arbitrary: temp)
  case Nil
  then show ?case by simp
next
  case (Cons c cols)
  obtain d0 s0 e0 where c: "c = (d0, s0, e0)" by (cases c)
  from Cons.prems have dist: "distinct (map fst cols)" and notin: "\<forall>c' \<in> set cols. fst c' \<noteq> d0"
    by (auto simp: c)
  note IH = Cons.IH [OF dist, of "processColumn line c temp"]
  show ?case
  proof (cases "d0 = d")
    case True
    with notin have "find (\<lambda>c. fst c = d) cols = None"
      unfolding find_None_iff by blast
    with IH True show ?thesis
      by (simp add: c processColumn_def split: option.splits)
  next
    case False
    then have t: "processColumn line c temp d = temp d"
      by (simp add: c processColumn_def split: option.splits)
    have "fold (processColumn line) (c # cols) temp d
            = fold (processColumn line) cols (processColumn line c temp) d"
      by simp
    also note IH [unfolded t]
    also have "find (\<lambda>c. fst c = d) cols = find (\<lambda>c. fst c = d) (c # cols)"
      using False by (simp add: c)
    finally show ?thesis .
  qed
qed

lemma columnBlock_column_text:
  assumes "s \<le> Suc e"
  shows "columnBlock l s e = column_text l s e"
proof (cases "s \<le> length l")
  case True
  with assms have "min s (length l) = s" and "s \<le> min (Suc e) (length l)"
    by simp_all
  then have "columnBlock l s e = take (min (Suc e) (length l) - s) (drop s l)"
    by (simp add: columnBlock_def substring_def max_absorb2 min_absorb1)
  also have "\<dots> = take (Suc e - s) (drop s l)"
    by (cases "Suc e \<le> length l") (simp_all add: min_absorb1 min_absorb2)
  finally show ?thesis
    by (simp add: column_text_def)
next
  case False
  with assms have "min s (length l) = length l" and "min (Suc e) (length l) = length l"
    by simp_all
  with False show ?thesis
    by (simp add: columnBlock_def substring_def column_text_def)
qed

lemma column_items_Cons:
  "column_items (l # ls) s e =
     (if trim l = [] then column_items ls s e
      else (case extractWorkoutFromTextBlock (column_text l s e) of
              None \<Rightarrow> column_items ls s e
            | Some item \<Rightarrow> item # column_items ls s e))"
  by (simp add: column_items_def split: option.splits)

lemma fold_processLine:
  assumes "distinct (map fst cols)" and wf: "\<forall>c \<in> set cols. fst (snd c) \<le> Suc (snd (snd c))"
  shows "fold (processLine cols) ls temp d =
     (case find (\<lambda>c. fst c = d) cols of
        None \<Rightarrow> temp d
      | Some (d', s, e) \<Rightarrow> temp d @ tagged_from (length (temp d)) (column_items ls s e))"
proof (induction ls arbitrary: temp)
  case Nil
  then show ?case
    by (simp add: column_items_def split: option.splits)
next
  case (Cons l ls)
  show ?case
  proof (cases "trim l = []")
    case True
    then have "fold (processLine cols) (l # ls) temp d = fold (processLine cols) ls temp d"
      by (simp add: processLine_def)
    with Cons [of temp] True show ?thesis
      by (simp add: column_items_Cons split: option.splits prod.splits)
  next
    case False
    define temp' where "temp' = fold (processColumn l) cols temp"
    have step: "fold (processLine cols) (l # ls) temp d = fold (processLine cols) ls temp' d"
      using False by (simp add: processLine_def temp'_def)
    show ?thesis
    proof (cases "find (\<lambda>c. fst c = d) cols")
      case None
      with fold_processColumn [OF assms(1), of l temp d] have "temp' d = temp d"
        by (simp add: temp'_def)
      with Cons [of temp'] None step show ?thesis
        by simp
    next
      case (Some c)
      obtain d' s e where c: "c = (d', s, e)" by (cases c)
      from Some have "c \<in> set cols"
        by (auto simp: find_Some_iff)
      with wf c have "s \<le> Suc e"
        by fastforce
      then have blk: "columnBlock l s e = column_text l s e"
        by (rule columnBlock_column_text)
      show ?thesis
      proof (cases "extractWorkoutFromTextBlock (columnBlock l s e)")
        case None
        with fold_processColumn [OF assms(1), of l temp d] Some c have "temp' d = temp d"
          by (simp add: temp'_def)
        with Cons [of temp'] Some c step None False blk show ?thesis
          by (simp add: column_items_Cons)
      next
        case (Some item)
        with fold_processColumn [OF assms(1), of l temp d] \<open>find (\<lambda>c. fst c = d) cols = Some c\<close> c
        have "temp' d = temp d @ [item\<lparr>originalIndex := Some (length (temp d))\<rparr>]"
          by (simp add: temp'_def)
        with Cons [of temp'] \<open>find (\<lambda>c. fst c = d) cols = Some c\<close> c step Some False blk
        show ?thesis
          by (simp add: column_items_Cons)
      qed
    qed
  qed
qed

lemma map_fst_columnDefinitions:
  "map fst (columnDefinitions header cs) = take (length cs) dayOrderForColumns"
  by (intro nth_equalityI) (simp_all add: columnDefinitions_def min.commute)

lemma map_start_columnDefinitions:
  "map (\<lambda>c. fst (snd c)) (columnDefinitions header cs) = take (length dayOrderForColumns) cs"
  by (intro nth_equalityI) (simp_all add: columnDefinitions_def)

lemma distinct_columnDefinitions: "distinct (map fst (columnDefinitions header cs))"
  unfolding map_fst_columnDefinitions
  by (rule distinct_take) (simp add: dayOrderForColumns_def)
lemma length_toLowerCase [simp]: "length (toLowerCase s) = length s"
  by (simp add: toLowerCase_def)

lemma occurrences_sorted: "sorted_wrt (<) (occurrences h)"
  unfolding occurrences_def by (rule sorted_wrt_filter) (simp add: sorted_wrt_upt)

lemma occurrences_lt: "p \<in> set (occurrences h) \<Longrightarrow> p < length h"
  by (simp add: occurrences_def)

lemma column_end_nth:
  assumes "i < length occ"
  shows "(map (\<lambda>p. p - 1) (tl occ) @ [n]) ! i
           = (if i + 1 < length occ then occ ! (i + 1) - 1 else n)"
proof (cases "i + 1 < length occ")
  case True
  then have "i < length (map (\<lambda>p. p - 1) (tl occ))"
    by simp
  then have "(map (\<lambda>p. p - 1) (tl occ) @ [n]) ! i = map (\<lambda>p. p - 1) (tl occ) ! i"
    by (simp only: nth_append if_True)
  with True show ?thesis
    by (simp add: nth_tl)
next
  case False
  with assms have "i = length (map (\<lambda>p. p - 1) (tl occ))"
    by simp
  then have "(map (\<lambda>p. p - 1) (tl occ) @ [n]) ! i = n"
    by (simp only: nth_append_length)
  with False show ?thesis
    by simp
qed

lemma columnDefinitions_spec:
  "columnDefinitions header (occurrences (toLowerCase header)) = spec_columns header"
proof -
  define occ where "occ = occurrences (toLowerCase header)"
  define ends where "ends = map (\<lambda>p. p - 1) (tl occ) @ [length header]"
  have len_ends: "min (length occ) (length ends) = length occ"
    by (simp add: ends_def)
  have "columnDefinitions header occ = zip [1, 2, 4, 5 :: nat] (zip occ ends)"
  proof (rule nth_equalityI)
    show "length (columnDefinitions header occ) = length (zip [1, 2, 4, 5 :: nat] (zip occ ends))"
      using len_ends by (simp add: columnDefinitions_def dayOrderForColumns_def min.commute)
  next
    fix i assume "i < length (columnDefinitions header occ)"
    then have i: "i < length occ" "i < 4"
      by (simp_all add: columnDefinitions_def dayOrderForColumns_def)
    then have "i < length ends"
      by (simp add: ends_def)
    with i have "zip [1, 2, 4, 5 :: nat] (zip occ ends) ! i = ([1, 2, 4, 5 :: nat] ! i, occ ! i, ends ! i)"
      by simp
    moreover have "ends ! i = (if i + 1 < length occ then occ ! (i + 1) - 1 else length header)"
      unfolding ends_def using i(1) by (rule column_end_nth)
    moreover have "columnDefinitions header occ ! i
        = (dayOrderForColumns ! i, occ ! i,
           if i + 1 < length occ then occ ! (i + 1) - 1 else length header)"
      using i by (simp add: columnDefinitions_def dayOrderForColumns_def)
    ultimately show "columnDefinitions header occ ! i = zip [1, 2, 4, 5 :: nat] (zip occ ends) ! i"
      by (simp add: dayOrderForColumns_def)
  qed
  then show ?thesis
    by (simp add: spec_columns_def occ_def ends_def Let_def)
qed

lemma columnDefinitions_bounds:
  assumes "c \<in> set (columnDefinitions header (occurrences (toLowerCase header)))"
  shows "fst (snd c) \<le> Suc (snd (snd c))"
proof -
  define occ where "occ = occurrences (toLowerCase header)"
  from assms obtain i where i: "i < length occ" "i < 4"
    and c: "c = (dayOrderForColumns ! i, occ ! i,
           if i + 1 < length occ then occ ! (i + 1) - 1 else length header)"
    by (auto simp: columnDefinitions_def occ_def dayOrderForColumns_def)
  show ?thesis
  proof (cases "i + 1 < length occ")
    case True
    with occurrences_sorted [of "toLowerCase header"] have "occ ! i < occ ! (i + 1)"
      unfolding occ_def by (simp add: sorted_wrt_iff_nth_less)
    with True c show ?thesis
      by simp
  next
    case False
    from i(1) have "occ ! i \<in> set (occurrences (toLowerCase header))"
      by (simp add: occ_def)
    then have "occ ! i < length header"
      using occurrences_lt by fastforce
    with False c show ?thesis
      by simp
  qed
qed

lemma find_fst_map_of:
  "find (\<lambda>c. fst c = d) cols = map_option (\<lambda>v. (d, v)) (map_of cols d)"
  by (induction cols) auto

lemma findHeader_header_row:
  assumes "findHeader 0 ls = Some h"
  shows "header_row ls h"
proof -
  let ?P3 = "\<lambda>l. str_includes (toLowerCase l) ''movement'' \<and> str_includes (toLowerCase l) ''sets''
                  \<and> str_includes (toLowerCase l) ''reps''"
  let ?P2 = "\<lambda>l. str_includes (toLowerCase l) ''movement'' \<and> str_includes (toLowerCase l) ''sets''"
  show ?thesis
  proof (cases "findLineFrom ?P3 0 ls")
    case None
    then have no3: "\<forall>k. k < length ls \<longrightarrow> \<not> ?P3 (ls ! k)"
      by (simp add: findLineFrom_None)
    from None assms have "findLineFrom ?P2 0 ls = Some h"
      by (simp add: findHeader_def)
    from findLineFrom_Some [OF this]
    have "h < length ls" "?P2 (ls ! h)" "\<forall>k < h. \<not> ?P2 (ls ! k)"
      by auto
    with no3 show ?thesis
      unfolding header_row_def mentions_movement_sets_def by auto
  next
    case (Some i)
    with assms have "i = h"
      by (simp add: findHeader_def)
    with findLineFrom_Some [OF Some]
    have "h < length ls" "?P3 (ls ! h)" "\<forall>k < h. \<not> ?P3 (ls ! k)"
      by auto
    then show ?thesis
      unfolding header_row_def mentions_movement_sets_def by auto
  qed
qed


section \<open>The properties of the specification\<close>
text \<open>
  C1 (counterexample): at weight 30 and one repetition the function returns the weight, 30,
  while \<open>w * (1 + r / 30)\<close> is 31.
\<close>

theorem C1_counterexample: "calculateEpley1RM 30 1 \<noteq> 30 * (1 + 1 / 30)"
  by (simp add: calculateEpley1RM_def)

text \<open>
  C1 (amended): for every weight \<open>w > 0\<close> and every integer number of repetitions \<open>r\<close>,
  \<open>calculateEpley1RM w r\<close> is \<open>w\<close> when \<open>r = 1\<close> and \<open>w * (1 + r / 30)\<close> when \<open>r \<ge> 2\<close>.
\<close>

theorem C1_epley:
  fixes w :: real and r :: int
  assumes "0 < w" and "1 \<le> r"
  shows "calculateEpley1RM w (of_int r) = (if r = 1 then w else w * (1 + of_int r / 30))"
  using assms by (simp add: calculateEpley1RM_def)

theorem C1_epley_witness:
  "(0::real) < 60 \<and> (1::int) \<le> 5 \<and> calculateEpley1RM 60 (of_int 5) = 70
   \<and> calculateEpley1RM 60 (of_int 1) = 60"
  using C1_epley [of 60 5] C1_epley [of 60 1] by simp
text \<open>
  C2 (counterexample): a state whose \<open>activeSyncedGroupId\<close> is the empty string is falsy in the
  guard of \<open>desyncActiveGroup\<close>, so it is returned as it is, with \<open>activeSyncedGroupId\<close>
  still the empty string and not \<open>undefined\<close>.
\<close>

theorem C2_counterexample:
  "activeSyncedGroupId
     (desyncActiveGroup \<lparr>userId = ''u1'', exercises = [], weeklyTemplate = [], dailyLogs = [],
        groups = [], activeSyncedGroupId = Some ''''\<rparr>) \<noteq> None"
  by (simp add: desyncActiveGroup_def truthy_def)

text \<open>
  C2 (amended): for every AppData and every template, \<open>updateWeeklyTemplate\<close> returns a state
  whose \<open>activeSyncedGroupId\<close> is undefined and whose \<open>weeklyTemplate\<close> is the given template;
  for every AppData, \<open>desyncActiveGroup\<close> leaves every other field unchanged and returns
  \<open>activeSyncedGroupId\<close> undefined unless it was the empty string, in which case the input is
  returned unchanged.
\<close>

theorem C2_desync_on_edit:
  "activeSyncedGroupId (updateWeeklyTemplate d t) = None
   \<and> weeklyTemplate (updateWeeklyTemplate d t) = t
   \<and> (activeSyncedGroupId d \<noteq> Some '''' \<longrightarrow> activeSyncedGroupId (desyncActiveGroup d) = None)
   \<and> (activeSyncedGroupId d = Some '''' \<longrightarrow> desyncActiveGroup d = d)
   \<and> userId (desyncActiveGroup d) = userId d
   \<and> exercises (desyncActiveGroup d) = exercises d
   \<and> weeklyTemplate (desyncActiveGroup d) = weeklyTemplate d
   \<and> dailyLogs (desyncActiveGroup d) = dailyLogs d
   \<and> groups (desyncActiveGroup d) = groups d"
  by (cases "activeSyncedGroupId d")
     (simp_all add: updateWeeklyTemplate_def desyncActiveGroup_def truthy_def)

theorem C2_desync_on_edit_witness:
  "activeSyncedGroupId
     (desyncActiveGroup \<lparr>userId = ''u1'', exercises = [], weeklyTemplate = [], dailyLogs = [],
        groups = [], activeSyncedGroupId = Some ''g1''\<rparr>) = None
   \<and> Some ''g1'' \<noteq> Some ''''"
  using C2_desync_on_edit [of "\<lparr>userId = ''u1'', exercises = [], weeklyTemplate = [],
    dailyLogs = [], groups = [], activeSyncedGroupId = Some ''g1''\<rparr>" "[]"]
  by simp
text \<open>
  C3 (counterexample): the weekday line \<open>Tuesday\<close> is the sixth line, so it is not looked at;
  the text is read as columns, and the first column is Monday: the plan has the key 1 and
  not the key 2.
\<close>

theorem C3_counterexample:
  "parseFullWorkoutPlanFromText
     (''Week 1'' @ [CHR 0x0A] @ ''Block A'' @ [CHR 0x0A] @ ''Coach notes'' @ [CHR 0x0A]
      @ ''Phase 2'' @ [CHR 0x0A] @ ''Deload'' @ [CHR 0x0A] @ ''Tuesday'' @ [CHR 0x0A]
      @ ''Movement Sets Reps'' @ [CHR 0x0A] @ ''Squat 3 5'') 2 = None
   \<and> parseFullWorkoutPlanFromText
     (''Week 1'' @ [CHR 0x0A] @ ''Block A'' @ [CHR 0x0A] @ ''Coach notes'' @ [CHR 0x0A]
      @ ''Phase 2'' @ [CHR 0x0A] @ ''Deload'' @ [CHR 0x0A] @ ''Tuesday'' @ [CHR 0x0A]
      @ ''Movement Sets Reps'' @ [CHR 0x0A] @ ''Squat 3 5'') 1
     = Some [\<lparr>item_name = ''Squat'', targetSets = 3, targetReps = Some ''5'',
               originalIndex = Some 0\<rparr>]"
  by code_simp

text \<open>
  C3 (amended): for every pasted text in which one of the first five lines (of the trimmed
  text), after trimming, is a weekday name up to case and some later line contains both
  \<open>movement\<close> and \<open>sets\<close> up to case, \<open>parseFullWorkoutPlanFromText\<close> returns a plan whose only key
  is the weekday of the first such line, mapping to the items extracted from the non-blank
  lines after the header row (the first matching line after the weekday line), in order, each
  tagged with its position as \<open>originalIndex\<close>, from 0.
\<close>

theorem C3_parse_day_plan:
  assumes "i < 5" and "i < length (plan_lines rawText)"
    and "weekday_of (plan_lines rawText ! i) \<noteq> None"
    and "i < j" and "j < length (plan_lines rawText)"
    and "mentions_movement_sets (plan_lines rawText ! j)"
  shows "\<exists>i0 day h.
           i0 \<le> i \<and> weekday_of (plan_lines rawText ! i0) = Some day
         \<and> (\<forall>k < i0. weekday_of (plan_lines rawText ! k) = None)
         \<and> findHeader (Suc i0) (plan_lines rawText) = Some h
         \<and> i0 < h \<and> h < length (plan_lines rawText)
         \<and> mentions_movement_sets (plan_lines rawText ! h)
         \<and> dom (parseFullWorkoutPlanFromText rawText) = {day}
         \<and> (\<exists>items. parseFullWorkoutPlanFromText rawText day = Some items
               \<and> length items = length (extracted_items (drop (Suc h) (plan_lines rawText)))
               \<and> (\<forall>k < length items.
                     items ! k = (extracted_items (drop (Suc h) (plan_lines rawText)) ! k)
                                   \<lparr>originalIndex := Some k\<rparr>))"
proof -
  define lines where "lines = plan_lines rawText"
  note a = assms [folded lines_def]
  let ?P = "\<lambda>l. weekday_of l \<noteq> None"
  have "?P (take 5 lines ! i)" "i < length (take 5 lines)"
    using a by simp_all
  then have "findIndex ?P (take 5 lines) \<noteq> None"
    unfolding findIndex_None by (metis nth_mem)
  then obtain i0 where i0: "findIndex ?P (take 5 lines) = Some i0"
    by blast
  from findIndex_Some [OF i0]
  have i0_len: "i0 < length (take 5 lines)" and i0_P: "?P (take 5 lines ! i0)"
    and i0_min: "\<forall>k < i0. \<not> ?P (take 5 lines ! k)"
    by auto
  from i0_min \<open>?P (take 5 lines ! i)\<close> have i0_le: "i0 \<le> i"
    by (meson not_le_imp_less)
  from i0_len have i0_lt: "i0 < 5" "i0 < length lines"
    by simp_all
  from i0_P i0_lt obtain day where day: "weekday_of (lines ! i0) = Some day"
    by auto
  have before: "\<forall>k < i0. weekday_of (lines ! k) = None"
    using i0_min i0_lt by auto
  have det: "detectDay (enumerate 0 (take 5 lines)) = Some (day, i0)"
    using i0 day i0_lt by (simp add: detectDay_enumerate)
  from findHeader_exists [of "Suc i0" j lines] a i0_le
  obtain h where h: "findHeader (Suc i0) lines = Some h"
    by auto
  from findHeader_Some [OF h]
  have h_props: "i0 < h" "h < length lines" "mentions_movement_sets (lines ! h)"
    by auto
  let ?ex = "extracted_items (drop (Suc h) lines)"
  have res: "parseFullWorkoutPlanFromText rawText = [day \<mapsto> tagged_from 0 ?ex]"
    by (simp add: parseFullWorkoutPlanFromText_def lines_def [symmetric] det h collectDay_eq)
  have "\<exists>items. parseFullWorkoutPlanFromText rawText day = Some items
               \<and> length items = length ?ex
               \<and> (\<forall>k < length items. items ! k = (?ex ! k)\<lparr>originalIndex := Some k\<rparr>)"
    by (simp add: res nth_tagged_from)
  moreover have "dom (parseFullWorkoutPlanFromText rawText) = {day}"
    by (simp add: res)
  ultimately show ?thesis
    using i0_le day before h h_props unfolding lines_def by blast
qed

theorem C3_parse_day_plan_witness:
  "dom (parseFullWorkoutPlanFromText
     (''Tuesday'' @ [CHR 0x0A] @ ''Movement Sets Reps'' @ [CHR 0x0A] @ ''Squat 3 5''
      @ [CHR 0x0A] @ [CHR 0x0A] @ ''Bench 4 8'')) = {2}
   \<and> parseFullWorkoutPlanFromText
     (''Tuesday'' @ [CHR 0x0A] @ ''Movement Sets Reps'' @ [CHR 0x0A] @ ''Squat 3 5''
      @ [CHR 0x0A] @ [CHR 0x0A] @ ''Bench 4 8'') 2
     = Some [\<lparr>item_name = ''Squat'', targetSets = 3, targetReps = Some ''5'',
               originalIndex = Some 0\<rparr>,
             \<lparr>item_name = ''Bench'', targetSets = 4, targetReps = Some ''8'',
               originalIndex = Some 1\<rparr>]"
proof -
  define raw where "raw = ''Tuesday'' @ [CHR 0x0A] @ ''Movement Sets Reps'' @ [CHR 0x0A]
      @ ''Squat 3 5'' @ [CHR 0x0A] @ [CHR 0x0A] @ ''Bench 4 8''"
  have 1: "(0::nat) < 5" and 4: "(0::nat) < 1"
    by simp_all
  have 2: "0 < length (plan_lines raw)" and 5: "1 < length (plan_lines raw)"
    unfolding raw_def by code_simp+
  have w: "weekday_of (plan_lines raw ! 0) = Some 2"
    unfolding raw_def by code_simp
  then have 3: "weekday_of (plan_lines raw ! 0) \<noteq> None"
    by simp
  have 6: "mentions_movement_sets (plan_lines raw ! 1)"
    unfolding raw_def by code_simp
  from C3_parse_day_plan [OF 1 2 3 4 5 6]
  obtain i0 day where "i0 \<le> 0" and "weekday_of (plan_lines raw ! i0) = Some day"
    and "dom (parseFullWorkoutPlanFromText raw) = {day}"
    by blast
  with w have "dom (parseFullWorkoutPlanFromText raw) = {2}"
    by simp
  moreover have "parseFullWorkoutPlanFromText raw 2
     = Some [\<lparr>item_name = ''Squat'', targetSets = 3, targetReps = Some ''5'',
               originalIndex = Some 0\<rparr>,
             \<lparr>item_name = ''Bench'', targetSets = 4, targetReps = Some ''8'',
               originalIndex = Some 1\<rparr>]"
    unfolding raw_def by code_simp
  ultimately show ?thesis
    unfolding raw_def by (rule conjI)
qed
text \<open>
  C4 (counterexample): a stored document whose template has seven entries that all say
  \<open>dayOfWeek = 1\<close> is loaded with those seven entries as they are: seven entries, but
  not one per weekday 0 through 6.
\<close>

theorem C4_counterexample:
  "map_sum id (\<lambda>d. map dayOfWeek (weeklyTemplate d))
     (loadData (\<lambda>a b. if a < b then - 1 else if a = b then 0 else 1) ''id9''
        (Document \<lparr>p_userId = Some ''u1'', p_exercises = Some [],
           p_weeklyTemplate = Some
             [Some \<lparr>pd_dayOfWeek = Some 1, pd_exercises = Some []\<rparr>,
              Some \<lparr>pd_dayOfWeek = Some 1, pd_exercises = Some []\<rparr>,
              Some \<lparr>pd_dayOfWeek = Some 1, pd_exercises = Some []\<rparr>,
              Some \<lparr>pd_dayOfWeek = Some 1, pd_exercises = Some []\<rparr>,
              Some \<lparr>pd_dayOfWeek = Some 1, pd_exercises = Some []\<rparr>,
              Some \<lparr>pd_dayOfWeek = Some 1, pd_exercises = Some []\<rparr>,
              Some \<lparr>pd_dayOfWeek = Some 1, pd_exercises = Some []\<rparr>],
           p_dailyLogs = Some [], p_groups = Some [], p_activeSyncedGroupId = None\<rparr>))
   = Inr [1, 1, 1, 1, 1, 1, 1]"
  by (simp add: loadData_def repairDay_def truthy_def array_sort_def upt_rec)

text \<open>
  C4 (amended): for a missing document and for every stored document (any field absent),
  \<open>loadData\<close> returns an AppData whose \<open>weeklyTemplate\<close> has exactly 7 entries; entry \<open>i\<close>
  has \<open>dayOfWeek = i\<close>, except that a stored template of exactly 7 entries keeps the
  \<open>dayOfWeek\<close> that its entry \<open>i\<close> stores; \<open>exercises\<close>, \<open>dailyLogs\<close> and \<open>groups\<close> are empty
  lists when absent from the stored document.
\<close>

theorem C4_load_data:
  "(\<exists>d. loadData cmp uid NoItem = Inr d
        \<and> map dayOfWeek (weeklyTemplate d) = [0, 1, 2, 3, 4, 5, 6]
        \<and> exercises d = [] \<and> dailyLogs d = [] \<and> groups d = [])
   \<and> (\<exists>d. loadData cmp uid (Document p) = Inr d
        \<and> length (weeklyTemplate d) = 7
        \<and> (\<forall>i < 7. dayOfWeek (weeklyTemplate d ! i) =
              (case p_weeklyTemplate p of
                 None \<Rightarrow> int i
               | Some days \<Rightarrow>
                   if length days \<noteq> 7 then int i
                   else (case days ! i of
                           None \<Rightarrow> int i
                         | Some day \<Rightarrow> (case pd_dayOfWeek day of None \<Rightarrow> int i | Some n \<Rightarrow> n))))
        \<and> (p_exercises p = None \<longrightarrow> exercises d = [])
        \<and> (p_dailyLogs p = None \<longrightarrow> dailyLogs d = [])
        \<and> (p_groups p = None \<longrightarrow> groups d = []))"
proof (intro conjI)
  show "\<exists>d. loadData cmp uid NoItem = Inr d
        \<and> map dayOfWeek (weeklyTemplate d) = [0, 1, 2, 3, 4, 5, 6]
        \<and> exercises d = [] \<and> dailyLogs d = [] \<and> groups d = []"
    by (simp add: loadData_def emptyDocument_def upt_rec)
next
  define wt where "wt =
    (case p_weeklyTemplate p of
       None \<Rightarrow> map (\<lambda>i. \<lparr>dayOfWeek = int i, day_exercises = []\<rparr>) [0..<7]
     | Some days \<Rightarrow>
         if length days \<noteq> 7
         then map (\<lambda>i. \<lparr>dayOfWeek = int i, day_exercises = []\<rparr>) [0..<7]
         else map (\<lambda>(day, i). repairDay day i) (zip days [0..<7]))"
  have len: "length wt = 7"
    by (simp add: wt_def split: option.split)
  have day: "dayOfWeek (wt ! i) =
              (case p_weeklyTemplate p of
                 None \<Rightarrow> int i
               | Some days \<Rightarrow>
                   if length days \<noteq> 7 then int i
                   else (case days ! i of
                           None \<Rightarrow> int i
                         | Some day \<Rightarrow> (case pd_dayOfWeek day of None \<Rightarrow> int i | Some n \<Rightarrow> n)))"
    if "i < 7" for i
  proof (cases "p_weeklyTemplate p")
    case None
    with that show ?thesis
      by (simp add: wt_def del: upt_Suc)
  next
    case (Some days)
    show ?thesis
    proof (cases "length days = 7")
      case True
      with that Some show ?thesis
        by (simp add: wt_def repairDay_def del: upt_Suc split: option.split)
    next
      case False
      with that Some show ?thesis
        by (simp add: wt_def del: upt_Suc)
    qed
  qed
  have "\<exists>d. loadData cmp uid (Document p) = Inr d \<and> weeklyTemplate d = wt
        \<and> (p_exercises p = None \<longrightarrow> exercises d = [])
        \<and> (p_dailyLogs p = None \<longrightarrow> dailyLogs d = [])
        \<and> (p_groups p = None \<longrightarrow> groups d = [])"
    by (simp add: loadData_def wt_def)
  with len day show "\<exists>d. loadData cmp uid (Document p) = Inr d
        \<and> length (weeklyTemplate d) = 7
        \<and> (\<forall>i < 7. dayOfWeek (weeklyTemplate d ! i) =
              (case p_weeklyTemplate p of
                 None \<Rightarrow> int i
               | Some days \<Rightarrow>
                   if length days \<noteq> 7 then int i
                   else (case days ! i of
                           None \<Rightarrow> int i
                         | Some day \<Rightarrow> (case pd_dayOfWeek day of None \<Rightarrow> int i | Some n \<Rightarrow> n))))
        \<and> (p_exercises p = None \<longrightarrow> exercises d = [])
        \<and> (p_dailyLogs p = None \<longrightarrow> dailyLogs d = [])
        \<and> (p_groups p = None \<longrightarrow> groups d = [])"
    by auto
qed

theorem C4_load_data_witness:
  "map_sum id (\<lambda>d. (map dayOfWeek (weeklyTemplate d), exercises d, dailyLogs d, groups d))
     (loadData (\<lambda>a b. if a < b then - 1 else if a = b then 0 else 1) ''id9''
        (Document \<lparr>p_userId = Some ''u1'', p_exercises = None,
           p_weeklyTemplate = Some [Some \<lparr>pd_dayOfWeek = Some 5, pd_exercises = Some []\<rparr>],
           p_dailyLogs = None, p_groups = None, p_activeSyncedGroupId = None\<rparr>))
   = Inr ([0, 1, 2, 3, 4, 5, 6], [], [], [])"
proof -
  let ?p = "\<lparr>p_userId = Some ''u1'', p_exercises = None,
           p_weeklyTemplate = Some [Some \<lparr>pd_dayOfWeek = Some 5, pd_exercises = Some []\<rparr>],
           p_dailyLogs = None, p_groups = None, p_activeSyncedGroupId = None\<rparr>"
  let ?cmp = "\<lambda>a b :: string. if a < b then - 1 else if a = b then 0 else (1::int)"
  from C4_load_data [of ?cmp "''id9''" ?p]
  obtain d where d: "loadData ?cmp ''id9'' (Document ?p) = Inr d"
    and len: "length (weeklyTemplate d) = 7"
    and day: "\<forall>i < 7. dayOfWeek (weeklyTemplate d ! i) = int i"
    and rest: "exercises d = []" "dailyLogs d = []" "groups d = []"
    by auto
  have "map dayOfWeek (weeklyTemplate d) = map int [0..<7]"
    using len day by (intro nth_equalityI) auto
  then have "map dayOfWeek (weeklyTemplate d) = [0, 1, 2, 3, 4, 5, 6]"
    by (simp add: upt_rec)
  with d rest show ?thesis
    by simp
qed
text \<open>
  C5 (counterexample): a name of blanks only is trimmed to the empty string; no exercise
  matches it (there is none at all), yet nothing is added and no exercise is returned.
\<close>

theorem C5_counterexample:
  "exercises (fst (addExercise (\<lambda>a b. if a < b then - 1 else if a = b then 0 else 1) ''id9''
      \<lparr>userId = ''u1'', exercises = [], weeklyTemplate = [], dailyLogs = [], groups = [],
        activeSyncedGroupId = None\<rparr> ''   '')) = []
   \<and> snd (addExercise (\<lambda>a b. if a < b then - 1 else if a = b then 0 else 1) ''id9''
      \<lparr>userId = ''u1'', exercises = [], weeklyTemplate = [], dailyLogs = [], groups = [],
        activeSyncedGroupId = None\<rparr> ''   '') = None"
  by code_simp

text \<open>
  C5 (amended): for a name that trims to the empty string \<open>addExercise\<close> returns the data
  unchanged and no exercise. Let the comparator be a total preorder and the exercise names
  pairwise distinct case-insensitively; for every name that does not trim to the empty string:
  if the trimmed name matches an existing exercise case-insensitively, \<open>addExercise\<close> returns
  the data unchanged together with that exercise; otherwise it returns the data with exactly
  one new exercise (the trimmed name) added and the exercise list sorted by the comparator and
  again pairwise distinct case-insensitively. \<open>saveData\<close> changes nothing but the order of the
  exercise list, which it sorts by the comparator before serialising.
\<close>

theorem C5_add_exercise:
  "(trim name = [] \<longrightarrow> addExercise cmp uid d name = (d, None))
    \<and> mset (exercises (saveData cmp d)) = mset (exercises d)
    \<and> saveData cmp d = d\<lparr>exercises := exercises (saveData cmp d)\<rparr>
    \<and> ((\<forall>a b. cmp a b \<le> 0 \<or> cmp b a \<le> 0)
        \<and> (\<forall>a b c. cmp a b \<le> 0 \<longrightarrow> cmp b c \<le> 0 \<longrightarrow> cmp a c \<le> (0::int)) \<longrightarrow>
          sorted_wrt (\<lambda>a b. cmp (ex_name a) (ex_name b) \<le> 0) (exercises (saveData cmp d)))
    \<and> ((\<forall>a b. cmp a b \<le> 0 \<or> cmp b a \<le> 0)
        \<and> (\<forall>a b c. cmp a b \<le> 0 \<longrightarrow> cmp b c \<le> 0 \<longrightarrow> cmp a c \<le> (0::int))
        \<and> distinct (map (\<lambda>e. toLowerCase (ex_name e)) (exercises d))
        \<and> trim name \<noteq> [] \<longrightarrow>
          (\<forall>e \<in> set (exercises d). toLowerCase (ex_name e) = toLowerCase (trim name) \<longrightarrow>
              addExercise cmp uid d name = (d, Some e))
        \<and> ((\<forall>e \<in> set (exercises d). toLowerCase (ex_name e) \<noteq> toLowerCase (trim name)) \<longrightarrow>
            (\<exists>exs. addExercise cmp uid d name
                     = (d\<lparr>exercises := exs\<rparr>, Some \<lparr>ex_id = uid, ex_name = trim name\<rparr>)
               \<and> mset exs = add_mset \<lparr>ex_id = uid, ex_name = trim name\<rparr> (mset (exercises d))
               \<and> sorted_wrt (\<lambda>a b. cmp (ex_name a) (ex_name b) \<le> 0) exs
               \<and> distinct (map (\<lambda>e. toLowerCase (ex_name e)) exs))))"
proof (intro conjI ballI impI; (elim conjE)?)
  assume "trim name = []"
  then show "addExercise cmp uid d name = (d, None)"
    by (simp add: addExercise_def)
next
  show "mset (exercises (saveData cmp d)) = mset (exercises d)"
    by (simp add: saveData_def mset_array_sort)
next
  show "saveData cmp d = d\<lparr>exercises := exercises (saveData cmp d)\<rparr>"
    by (simp add: saveData_def)
next
  assume tot: "\<forall>a b. cmp a b \<le> 0 \<or> cmp b a \<le> 0"
    and trans: "\<forall>a b c. cmp a b \<le> 0 \<longrightarrow> cmp b c \<le> 0 \<longrightarrow> cmp a c \<le> 0"
  show "sorted_wrt (\<lambda>a b. cmp (ex_name a) (ex_name b) \<le> 0) (exercises (saveData cmp d))"
    unfolding saveData_def using sorted_array_sort_total [OF tot trans, of ex_name "exercises d"]
    by simp
next
  fix e assume dist: "distinct (map (\<lambda>e. toLowerCase (ex_name e)) (exercises d))"
    and ne: "trim name \<noteq> []"
    and "e \<in> set (exercises d)" and "toLowerCase (ex_name e) = toLowerCase (trim name)"
  then have "find (\<lambda>ex. toLowerCase (ex_name ex) = toLowerCase (trim name)) (exercises d) = Some e"
    by (intro find_unique) auto
  with ne show "addExercise cmp uid d name = (d, Some e)"
    by (simp add: addExercise_def)
next
  let ?new = "\<lparr>ex_id = uid, ex_name = trim name\<rparr>"
  let ?exs = "array_sort (\<lambda>a b. cmp (ex_name a) (ex_name b)) (exercises d @ [?new])"
  assume tot: "\<forall>a b. cmp a b \<le> 0 \<or> cmp b a \<le> 0"
    and trans: "\<forall>a b c. cmp a b \<le> 0 \<longrightarrow> cmp b c \<le> 0 \<longrightarrow> cmp a c \<le> 0"
    and dist: "distinct (map (\<lambda>e. toLowerCase (ex_name e)) (exercises d))"
    and ne: "trim name \<noteq> []"
    and none: "\<forall>e \<in> set (exercises d). toLowerCase (ex_name e) \<noteq> toLowerCase (trim name)"
  then have "find (\<lambda>ex. toLowerCase (ex_name ex) = toLowerCase (trim name)) (exercises d) = None"
    by (simp add: find_None_iff)
  with ne have 1: "addExercise cmp uid d name = (d\<lparr>exercises := ?exs\<rparr>, Some ?new)"
    by (simp add: addExercise_def Let_def)
  have 2: "mset ?exs = add_mset ?new (mset (exercises d))"
    by (simp add: mset_array_sort)
  have 3: "sorted_wrt (\<lambda>a b. cmp (ex_name a) (ex_name b) \<le> 0) ?exs"
    by (rule sorted_array_sort_total [OF tot trans])
  have "distinct (map (\<lambda>e. toLowerCase (ex_name e)) (exercises d @ [?new]))"
    using dist none by (auto simp: image_iff)
  then have 4: "distinct (map (\<lambda>e. toLowerCase (ex_name e)) ?exs)"
    by (simp only: distinct_map_array_sort)
  from 1 2 3 4
  show "\<exists>exs. addExercise cmp uid d name = (d\<lparr>exercises := exs\<rparr>, Some ?new)
             \<and> mset exs = add_mset ?new (mset (exercises d))
             \<and> sorted_wrt (\<lambda>a b. cmp (ex_name a) (ex_name b) \<le> 0) exs
             \<and> distinct (map (\<lambda>e. toLowerCase (ex_name e)) exs)"
    by blast
qed

theorem C5_add_exercise_witness:
  "addExercise (\<lambda>a b. if a < b then - 1 else if a = b then 0 else 1) ''id9''
      \<lparr>userId = ''u1'', exercises = [\<lparr>ex_id = ''id1'', ex_name = ''Squat''\<rparr>],
        weeklyTemplate = [], dailyLogs = [], groups = [], activeSyncedGroupId = None\<rparr>
      ''  squat ''
    = (\<lparr>userId = ''u1'', exercises = [\<lparr>ex_id = ''id1'', ex_name = ''Squat''\<rparr>],
        weeklyTemplate = [], dailyLogs = [], groups = [], activeSyncedGroupId = None\<rparr>,
       Some \<lparr>ex_id = ''id1'', ex_name = ''Squat''\<rparr>)
   \<and> trim ''  squat '' = ''squat''
   \<and> addExercise (\<lambda>a b. if a < b then - 1 else if a = b then 0 else 1) ''id9''
      \<lparr>userId = ''u1'', exercises = [\<lparr>ex_id = ''id1'', ex_name = ''Squat''\<rparr>],
        weeklyTemplate = [], dailyLogs = [], groups = [], activeSyncedGroupId = None\<rparr>
      ''   ''
    = (\<lparr>userId = ''u1'', exercises = [\<lparr>ex_id = ''id1'', ex_name = ''Squat''\<rparr>],
        weeklyTemplate = [], dailyLogs = [], groups = [], activeSyncedGroupId = None\<rparr>,
       None)
   \<and> trim ''   '' = []
   \<and> exercises (fst (addExercise (\<lambda>a b. if a < b then - 1 else if a = b then 0 else 1) ''id9''
      \<lparr>userId = ''u1'', exercises = [\<lparr>ex_id = ''id1'', ex_name = ''Squat''\<rparr>],
        weeklyTemplate = [], dailyLogs = [], groups = [], activeSyncedGroupId = None\<rparr>
      '' Bench''))
    = [\<lparr>ex_id = ''id9'', ex_name = ''Bench''\<rparr>, \<lparr>ex_id = ''id1'', ex_name = ''Squat''\<rparr>]"
proof -
  let ?cmp = "\<lambda>a b :: string. if a < b then - 1 else if a = b then 0 else (1::int)"
  let ?e = "\<lparr>ex_id = ''id1'', ex_name = ''Squat''\<rparr>"
  let ?d = "\<lparr>userId = ''u1'', exercises = [?e],
        weeklyTemplate = [], dailyLogs = [], groups = [], activeSyncedGroupId = None\<rparr>"
  have tot: "\<forall>a b. ?cmp a b \<le> 0 \<or> ?cmp b a \<le> 0"
    by auto
  have trans: "\<forall>a b c. ?cmp a b \<le> 0 \<longrightarrow> ?cmp b c \<le> 0 \<longrightarrow> ?cmp a c \<le> 0"
    by (auto split: if_splits)
  have dist: "distinct (map (\<lambda>e. toLowerCase (ex_name e)) (exercises ?d))"
    by simp
  have t: "trim ''  squat '' = ''squat''"
    by code_simp
  then have ne: "trim ''  squat '' \<noteq> []"
    by simp
  have b: "trim ''   '' = []"
    by code_simp
  have m: "toLowerCase (ex_name ?e) = toLowerCase (trim ''  squat '')"
    by code_simp
  have "\<forall>e \<in> set (exercises ?d). toLowerCase (ex_name e) = toLowerCase (trim ''  squat '') \<longrightarrow>
      addExercise ?cmp ''id9'' ?d ''  squat '' = (?d, Some e)"
    using C5_add_exercise [of "''  squat ''" ?cmp "''id9''" ?d] tot trans dist ne by blast
  then have "addExercise ?cmp ''id9'' ?d ''  squat '' = (?d, Some ?e)"
    using m by simp
  moreover have "addExercise ?cmp ''id9'' ?d ''   '' = (?d, None)"
    using C5_add_exercise [of "''   ''" ?cmp "''id9''" ?d] b by blast
  moreover have "exercises (fst (addExercise ?cmp ''id9'' ?d '' Bench'')) =
      [\<lparr>ex_id = ''id9'', ex_name = ''Bench''\<rparr>, ?e]"
    by code_simp
  ultimately show ?thesis
    using t b by simp
qed
text \<open>
  C6 (counterexample): three logs, dated 2024-01-03, \<open>bad\<close> (which does not parse) and
  2024-01-01, each with one set of weight 30 and one repetition. The estimate of each point is
  30, the weight itself, and not the Epley estimate \<open>30 * (1 + 1 / 30)\<close>, which is 31 after
  rounding; and the series is not in ascending order of date: every comparison with \<open>bad\<close>
  gives NaN, which counts as 0, so a stable insertion (and equally a sort that first looks for
  a run that is already in order) leaves the three points as they are.
\<close>

theorem C6_counterexample:
  "map (\<lambda>p. (point_date p, predicted1RM p))
     (calculate1RMData
        (exact_ops (\<lambda>s. if s = ''30'' then Some 30 else None))
        array_sort
        (\<lambda>s. if s = ''2024-01-01'' then Some 1704067200000
             else if s = ''2024-01-03'' then Some 1704240000000 else None)
        \<lparr>userId = ''u1'', exercises = [], weeklyTemplate = [],
          dailyLogs =
            [\<lparr>log_date = ''2024-01-03'', log_exercises =
                [\<lparr>le_exerciseId = ''e1'', le_name = ''Squat'', le_sets =
                    [\<lparr>setNumber = 1, weight = ''30'', reps = ''1'', completed = True\<rparr>],
                   le_notes = None\<rparr>]\<rparr>,
             \<lparr>log_date = ''bad'', log_exercises =
                [\<lparr>le_exerciseId = ''e1'', le_name = ''Squat'', le_sets =
                    [\<lparr>setNumber = 1, weight = ''30'', reps = ''1'', completed = True\<rparr>],
                   le_notes = None\<rparr>]\<rparr>,
             \<lparr>log_date = ''2024-01-01'', log_exercises =
                [\<lparr>le_exerciseId = ''e1'', le_name = ''Squat'', le_sets =
                    [\<lparr>setNumber = 1, weight = ''30'', reps = ''1'', completed = True\<rparr>],
                   le_notes = None\<rparr>]\<rparr>],
          groups = [], activeSyncedGroupId = None\<rparr>)
   = [(''2024-01-03'', 30), (''bad'', 30), (''2024-01-01'', 30)]
   \<and> toFixed2 (30 * (1 + 1 / 30)) = 31"
proof -
  have t: "trim ''1'' = ''1''"
    by code_simp
  have dg: "all_digits ''1''"
    by code_simp
  have pi: "parseInt ''1'' = 1"
    by code_simp
  show ?thesis
    by (simp add: calculate1RMData_def max1RM_step_def calculateEpley1RM_num_def exact_ops_def
        t dg pi toFixed2_def array_sort_def date_cmp_def)
qed

text \<open>
  C6 (amended): for every AppData, \<open>calculate1RMData\<close> emits, for each log and logged
  exercise, at most one data point, whose \<open>predicted1RM\<close> is the largest estimate (the weight
  itself at one repetition, \<open>w * (1 + r / 30)\<close> from two repetitions on) over the sets with a
  weight that parses to a positive number and trimmed reps that are digits with a positive
  value, rounded to two decimals by \<open>toFixed(2)\<close>; there is no point when there is no such
  set; the series is the sort of these points, and it is in ascending order of date when every
  log date parses. The numbers are the program's doubles and the sort is the engine's, both
  parameters: of the numbers it is assumed that the double of a positive integer is positive,
  that only 1 has the double 1 and that \<open>w * (1 + r / 30)\<close> is positive for positive \<open>w\<close> and
  \<open>r\<close>; of the sort, that it permutes the array and orders it under a consistent comparator.
\<close>

theorem C6_calculate_1RM_data:
  "(\<forall>lg loggedEx. length (spec_points ops lg loggedEx) \<le> 1)
    \<and> (numbers_ok ops \<longrightarrow>
         calculate1RMData ops srt date_ms d
           = srt (\<lambda>a b. date_cmp date_ms (point_date a) (point_date b))
               (concat (map (\<lambda>lg. concat (map (spec_points ops lg) (log_exercises lg)))
                  (dailyLogs d))))
    \<and> (numbers_ok ops \<and> sort_contract srt \<longrightarrow>
         mset (calculate1RMData ops srt date_ms d)
           = mset (concat (map (\<lambda>lg. concat (map (spec_points ops lg) (log_exercises lg)))
                     (dailyLogs d)))
         \<and> ((\<forall>lg \<in> set (dailyLogs d). date_ms (log_date lg) \<noteq> None) \<longrightarrow>
              sorted (map (\<lambda>p. the (date_ms (point_date p)))
                        (calculate1RMData ops srt date_ms d))))"
proof (intro conjI impI; (elim conjE)?)
  show "\<forall>lg loggedEx. length (spec_points ops lg loggedEx) \<le> 1"
    by (simp add: spec_points_def Let_def)
next
  assume n: "numbers_ok ops"
  show "calculate1RMData ops srt date_ms d
           = srt (\<lambda>a b. date_cmp date_ms (point_date a) (point_date b))
               (concat (map (\<lambda>lg. concat (map (spec_points ops lg) (log_exercises lg)))
                  (dailyLogs d)))"
    unfolding calculate1RMData_def points_eq_spec [OF n] by simp
next
  assume n: "numbers_ok ops" and c: "sort_contract srt"
  have eq: "calculate1RMData ops srt date_ms d
           = srt (\<lambda>a b. date_cmp date_ms (point_date a) (point_date b))
               (concat (map (\<lambda>lg. concat (map (spec_points ops lg) (log_exercises lg)))
                  (dailyLogs d)))"
    unfolding calculate1RMData_def points_eq_spec [OF n] by simp
  show "mset (calculate1RMData ops srt date_ms d)
        = mset (concat (map (\<lambda>lg. concat (map (spec_points ops lg) (log_exercises lg)))
                  (dailyLogs d)))"
    unfolding eq by (rule contract_mset [OF c])
next
  assume n: "numbers_ok ops" and c: "sort_contract srt"
    and "\<forall>lg \<in> set (dailyLogs d). date_ms (log_date lg) \<noteq> None"
  then have p: "\<forall>p \<in> set (concat (map (\<lambda>lg. concat (map (spec_points ops lg) (log_exercises lg)))
                  (dailyLogs d))). date_ms (point_date p) \<noteq> None"
    by (auto simp: spec_points_def Let_def split: if_splits)
  have eq: "calculate1RMData ops srt date_ms d
           = srt (\<lambda>a b. date_cmp date_ms (point_date a) (point_date b))
               (concat (map (\<lambda>lg. concat (map (spec_points ops lg) (log_exercises lg)))
                  (dailyLogs d)))"
    unfolding calculate1RMData_def points_eq_spec [OF n] by simp
  from p show "sorted (map (\<lambda>p. the (date_ms (point_date p)))
      (calculate1RMData ops srt date_ms d))"
    unfolding eq by (rule sorted_by_date [OF c])
qed

theorem C6_calculate_1RM_data_witness:
  "calculate1RMData
      (exact_ops (\<lambda>s. if s = ''100'' then Some 100 else if s = ''60'' then Some 60
                       else if s = ''80'' then Some 80 else None))
      array_sort
      (\<lambda>s. if s = ''2024-01-01'' then Some 1704067200000
           else if s = ''2024-01-02'' then Some 1704153600000 else None)
      \<lparr>userId = ''u1'', exercises = [], weeklyTemplate = [],
        dailyLogs =
          [\<lparr>log_date = ''2024-01-02'', log_exercises =
              [\<lparr>le_exerciseId = ''e1'', le_name = ''Squat'', le_sets =
                  [\<lparr>setNumber = 1, weight = ''100'', reps = '' 30 '', completed = True\<rparr>,
                   \<lparr>setNumber = 2, weight = ''60'', reps = ''15'', completed = True\<rparr>,
                   \<lparr>setNumber = 3, weight = ''abc'', reps = ''15'', completed = False\<rparr>,
                   \<lparr>setNumber = 4, weight = ''100'', reps = ''8-10'', completed = False\<rparr>],
                 le_notes = None\<rparr>,
               \<lparr>le_exerciseId = ''e2'', le_name = ''Plank'', le_sets =
                  [\<lparr>setNumber = 1, weight = '''', reps = ''60s'', completed = True\<rparr>],
                 le_notes = None\<rparr>]\<rparr>,
           \<lparr>log_date = ''2024-01-01'', log_exercises =
              [\<lparr>le_exerciseId = ''e1'', le_name = ''Squat'', le_sets =
                  [\<lparr>setNumber = 1, weight = ''60'', reps = ''15'', completed = True\<rparr>,
                   \<lparr>setNumber = 2, weight = ''80'', reps = ''1'', completed = True\<rparr>],
                 le_notes = None\<rparr>]\<rparr>],
        groups = [], activeSyncedGroupId = None\<rparr>
    = [\<lparr>point_date = ''2024-01-01'', exerciseName = ''Squat'', predicted1RM = 90\<rparr>,
       \<lparr>point_date = ''2024-01-02'', exerciseName = ''Squat'', predicted1RM = 200\<rparr>]"
proof -
  define pf where "pf = (\<lambda>s. if s = ''100'' then Some (100::real) else if s = ''60'' then Some 60
                       else if s = ''80'' then Some 80 else None)"
  define ms where "ms = (\<lambda>s. if s = ''2024-01-01'' then Some (1704067200000::int)
           else if s = ''2024-01-02'' then Some 1704153600000 else None)"
  let ?ex1 = "\<lparr>le_exerciseId = ''e1'', le_name = ''Squat'', le_sets =
                  [\<lparr>setNumber = 1, weight = ''100'', reps = '' 30 '', completed = True\<rparr>,
                   \<lparr>setNumber = 2, weight = ''60'', reps = ''15'', completed = True\<rparr>,
                   \<lparr>setNumber = 3, weight = ''abc'', reps = ''15'', completed = False\<rparr>,
                   \<lparr>setNumber = 4, weight = ''100'', reps = ''8-10'', completed = False\<rparr>],
                 le_notes = None\<rparr>"
  let ?ex2 = "\<lparr>le_exerciseId = ''e2'', le_name = ''Plank'', le_sets =
                  [\<lparr>setNumber = 1, weight = '''', reps = ''60s'', completed = True\<rparr>],
                 le_notes = None\<rparr>"
  let ?ex3 = "\<lparr>le_exerciseId = ''e1'', le_name = ''Squat'', le_sets =
                  [\<lparr>setNumber = 1, weight = ''60'', reps = ''15'', completed = True\<rparr>,
                   \<lparr>setNumber = 2, weight = ''80'', reps = ''1'', completed = True\<rparr>],
                 le_notes = None\<rparr>"
  let ?l1 = "\<lparr>log_date = ''2024-01-02'', log_exercises = [?ex1, ?ex2]\<rparr>"
  let ?l2 = "\<lparr>log_date = ''2024-01-01'', log_exercises = [?ex3]\<rparr>"
  let ?d = "\<lparr>userId = ''u1'', exercises = [], weeklyTemplate = [],
        dailyLogs = [?l1, ?l2], groups = [], activeSyncedGroupId = None\<rparr>"
  have t: "trim '' 30 '' = ''30''" "trim ''15'' = ''15''" "trim ''8-10'' = ''8-10''"
    "trim ''60s'' = ''60s''" "trim ''1'' = ''1''"
    by code_simp+
  have dg: "all_digits ''30''" "all_digits ''15''" "\<not> all_digits ''8-10''" "\<not> all_digits ''60s''"
    "all_digits ''1''"
    by code_simp+
  have pi: "parseInt ''30'' = 30" "parseInt ''15'' = 15" "parseInt ''1'' = 1"
    by code_simp+
  have s1: "spec_points (exact_ops pf) ?l1 ?ex1
      = [\<lparr>point_date = ''2024-01-02'', exerciseName = ''Squat'', predicted1RM = 200\<rparr>]"
    by (simp add: spec_points_def valid_set_def set_estimate_def t dg pi exact_ops_def pf_def
        toFixed2_def)
  have s2: "spec_points (exact_ops pf) ?l1 ?ex2 = []"
    by (simp add: spec_points_def valid_set_def t dg exact_ops_def pf_def)
  have s3: "spec_points (exact_ops pf) ?l2 ?ex3
      = [\<lparr>point_date = ''2024-01-01'', exerciseName = ''Squat'', predicted1RM = 90\<rparr>]"
    by (simp add: spec_points_def valid_set_def set_estimate_def t dg pi exact_ops_def pf_def
        toFixed2_def)
  from C6_calculate_1RM_data [of "exact_ops pf" array_sort ms ?d] numbers_ok_exact [of pf]
  have "calculate1RMData (exact_ops pf) array_sort ms ?d
           = array_sort (\<lambda>a b. date_cmp ms (point_date a) (point_date b))
               (concat (map (\<lambda>lg. concat (map (spec_points (exact_ops pf) lg) (log_exercises lg)))
                  (dailyLogs ?d)))"
    by blast
  also have "\<dots> = [\<lparr>point_date = ''2024-01-01'', exerciseName = ''Squat'', predicted1RM = 90\<rparr>,
       \<lparr>point_date = ''2024-01-02'', exerciseName = ''Squat'', predicted1RM = 200\<rparr>]"
    by (simp add: s1 s2 s3 array_sort_def date_cmp_def ms_def)
  finally show ?thesis
    unfolding pf_def ms_def .
qed
text \<open>
  C7: when some group has the given id, \<open>applyGroupTemplateToUser\<close> takes the first such group,
  sets \<open>weeklyTemplate\<close> to (a copy of) its \<open>sharedTemplate\<close> and \<open>activeSyncedGroupId\<close> to its
  id, and leaves \<open>userId\<close>, \<open>exercises\<close>, \<open>dailyLogs\<close> and \<open>groups\<close> unchanged; when no group has
  the id, the input is returned unchanged.
\<close>

theorem C7_apply_group_template:
  "((\<exists>g \<in> set (groups d). group_id g = gid) \<longrightarrow>
      (\<exists>g \<in> set (groups d).
          find (\<lambda>g. group_id g = gid) (groups d) = Some g
        \<and> group_id g = gid
        \<and> weeklyTemplate (applyGroupTemplateToUser d gid) = sharedTemplate g
        \<and> activeSyncedGroupId (applyGroupTemplateToUser d gid) = Some (group_id g)
        \<and> userId (applyGroupTemplateToUser d gid) = userId d
        \<and> exercises (applyGroupTemplateToUser d gid) = exercises d
        \<and> dailyLogs (applyGroupTemplateToUser d gid) = dailyLogs d
        \<and> groups (applyGroupTemplateToUser d gid) = groups d))
   \<and> ((\<forall>g \<in> set (groups d). group_id g \<noteq> gid) \<longrightarrow> applyGroupTemplateToUser d gid = d)"
proof (cases "find (\<lambda>g. group_id g = gid) (groups d)")
  case None
  then have "\<forall>g \<in> set (groups d). group_id g \<noteq> gid"
    by (simp add: find_None_iff)
  with None show ?thesis
    by (simp add: applyGroupTemplateToUser_def)
next
  case (Some g)
  then have "g \<in> set (groups d)" and "group_id g = gid"
    by (auto simp: find_Some_iff in_set_conv_nth)
  with Some show ?thesis
    by (auto simp: applyGroupTemplateToUser_def)
qed

theorem C7_apply_group_template_witness:
  "weeklyTemplate
     (applyGroupTemplateToUser
        \<lparr>userId = ''u1'', exercises = [], weeklyTemplate = [], dailyLogs = [],
         groups = [\<lparr>group_id = ''g1'', group_name = ''Gym'', ownerId = ''u2'', inviteCode = ''ABC234'',
                    sharedTemplate = [\<lparr>dayOfWeek = 1, day_exercises = []\<rparr>],
                    lastUpdated = ''2024-01-01''\<rparr>],
         activeSyncedGroupId = None\<rparr> ''g1'')
     = [\<lparr>dayOfWeek = 1, day_exercises = []\<rparr>]
   \<and> applyGroupTemplateToUser
        \<lparr>userId = ''u1'', exercises = [], weeklyTemplate = [], dailyLogs = [],
         groups = [], activeSyncedGroupId = None\<rparr> ''g1''
     = \<lparr>userId = ''u1'', exercises = [], weeklyTemplate = [], dailyLogs = [],
         groups = [], activeSyncedGroupId = None\<rparr>"
  using C7_apply_group_template [of
      "\<lparr>userId = ''u1'', exercises = [], weeklyTemplate = [], dailyLogs = [],
         groups = [\<lparr>group_id = ''g1'', group_name = ''Gym'', ownerId = ''u2'', inviteCode = ''ABC234'',
                    sharedTemplate = [\<lparr>dayOfWeek = 1, day_exercises = []\<rparr>],
                    lastUpdated = ''2024-01-01''\<rparr>],
         activeSyncedGroupId = None\<rparr>" "''g1''"]
    C7_apply_group_template [of
      "\<lparr>userId = ''u1'', exercises = [], weeklyTemplate = [], dailyLogs = [],
         groups = [], activeSyncedGroupId = None\<rparr>" "''g1''"]
  by simp

text \<open>
  C9 (counterexample): the logs of 2024-01-03 and of the date \<open>bad\<close>, which does not parse, and
  a new log of 2024-01-01. The new log is appended; every comparison with \<open>bad\<close> gives NaN,
  which counts as 0, so a stable insertion (and equally a sort that first looks for a run that
  is already in order) leaves the three logs as they are: 2024-01-03 stays before 2024-01-01.
\<close>

theorem C9_counterexample:
  "map log_date (dailyLogs (upsertDailyLog array_sort
      (\<lambda>s. if s = ''2024-01-01'' then Some 1704067200000
           else if s = ''2024-01-03'' then Some 1704240000000 else None)
      \<lparr>userId = ''u1'', exercises = [], weeklyTemplate = [],
        dailyLogs = [\<lparr>log_date = ''2024-01-03'', log_exercises = []\<rparr>,
                     \<lparr>log_date = ''bad'', log_exercises = []\<rparr>],
        groups = [], activeSyncedGroupId = None\<rparr>
      \<lparr>log_date = ''2024-01-01'', log_exercises = []\<rparr>))
    = [''2024-01-03'', ''bad'', ''2024-01-01'']"
  by (simp add: upsertDailyLog_def array_sort_def date_cmp_def)

text \<open>
  C9 (amended): for every AppData and every daily log, \<open>upsertDailyLog\<close> returns a state whose
  fields other than \<open>dailyLogs\<close> are unchanged. When the logs of the input carry pairwise
  different dates, the logs of the result still do, and they hold the given log as the only one
  of its date: they are the given log and the logs of the input with another date (a previous
  log of that date is replaced, and the log is appended when there was none); when moreover
  the dates of all the logs and of the given log parse, the logs are sorted by ascending date.
  The sort is the engine's, a parameter assumed to permute the array and to order it under a
  consistent comparator.
\<close>

theorem C9_upsert_daily_log:
  "userId (upsertDailyLog srt date_ms d lg) = userId d
    \<and> exercises (upsertDailyLog srt date_ms d lg) = exercises d
    \<and> weeklyTemplate (upsertDailyLog srt date_ms d lg) = weeklyTemplate d
    \<and> groups (upsertDailyLog srt date_ms d lg) = groups d
    \<and> activeSyncedGroupId (upsertDailyLog srt date_ms d lg) = activeSyncedGroupId d
    \<and> (sort_contract srt \<and> distinct (map log_date (dailyLogs d)) \<longrightarrow>
         distinct (map log_date (dailyLogs (upsertDailyLog srt date_ms d lg)))
       \<and> lg \<in> set (dailyLogs (upsertDailyLog srt date_ms d lg))
       \<and> (\<forall>l \<in> set (dailyLogs (upsertDailyLog srt date_ms d lg)).
             log_date l = log_date lg \<longrightarrow> l = lg)
       \<and> mset (dailyLogs (upsertDailyLog srt date_ms d lg))
           = add_mset lg (filter_mset (\<lambda>l. log_date l \<noteq> log_date lg) (mset (dailyLogs d)))
       \<and> ((\<forall>l \<in> set (dailyLogs d). date_ms (log_date l) \<noteq> None)
            \<and> date_ms (log_date lg) \<noteq> None
            \<longrightarrow> sorted (map (\<lambda>l. the (date_ms (log_date l)))
                         (dailyLogs (upsertDailyLog srt date_ms d lg)))))"
proof -
  define newLogs where "newLogs =
    (case findIndex (\<lambda>dlog. log_date dlog = log_date lg) (dailyLogs d) of
       Some i \<Rightarrow> (dailyLogs d)[i := lg] | None \<Rightarrow> dailyLogs d @ [lg])"
  define res where "res = srt (\<lambda>a b. date_cmp date_ms (log_date a) (log_date b)) newLogs"
  have r: "upsertDailyLog srt date_ms d lg = d\<lparr>dailyLogs := res\<rparr>"
    by (simp add: upsertDailyLog_def res_def newLogs_def)
  have main: "distinct (map log_date res) \<and> lg \<in> set res
       \<and> (\<forall>l \<in> set res. log_date l = log_date lg \<longrightarrow> l = lg)
       \<and> mset res = add_mset lg (filter_mset (\<lambda>l. log_date l \<noteq> log_date lg) (mset (dailyLogs d)))
       \<and> ((\<forall>l \<in> set (dailyLogs d). date_ms (log_date l) \<noteq> None)
            \<and> date_ms (log_date lg) \<noteq> None
            \<longrightarrow> sorted (map (\<lambda>l. the (date_ms (log_date l))) res))"
    if c: "sort_contract srt" and u: "distinct (map log_date (dailyLogs d))"
  proof -
    have m: "mset res = add_mset lg (filter_mset (\<lambda>l. log_date l \<noteq> log_date lg) (mset (dailyLogs d)))"
      unfolding res_def newLogs_def contract_mset [OF c]
      by (rule upsert_logs_mset [OF u])
    have s: "set res = insert lg {l \<in> set (dailyLogs d). log_date l \<noteq> log_date lg}"
    proof -
      have "set res = set_mset (mset res)" by simp
      also have "\<dots> = insert lg {l \<in> set (dailyLogs d). log_date l \<noteq> log_date lg}"
        unfolding m by auto
      finally show ?thesis .
    qed
    have "distinct (map log_date (filter (\<lambda>l. log_date l \<noteq> log_date lg) (dailyLogs d)))"
      using u by (simp add: distinct_map_filter)
    then have "distinct (map log_date (lg # filter (\<lambda>l. log_date l \<noteq> log_date lg) (dailyLogs d)))"
      by auto
    moreover have "mset (map log_date res)
        = mset (map log_date (lg # filter (\<lambda>l. log_date l \<noteq> log_date lg) (dailyLogs d)))"
      using m by simp
    ultimately have dist: "distinct (map log_date res)"
      using mset_eq_imp_distinct_iff by blast
    have srt: "sorted (map (\<lambda>l. the (date_ms (log_date l))) res)"
      if "\<forall>l \<in> set (dailyLogs d). date_ms (log_date l) \<noteq> None" and "date_ms (log_date lg) \<noteq> None"
    proof -
      have "set newLogs = set res"
        by (simp add: res_def contract_set [OF c])
      with s that have "\<forall>x \<in> set newLogs. date_ms (log_date x) \<noteq> None"
        by auto
      then show ?thesis
        unfolding res_def by (rule sorted_by_date [OF c])
    qed
    show ?thesis
      using srt by (simp add: m dist s)
  qed
  show ?thesis
    unfolding r using main by simp
qed

theorem C9_upsert_daily_log_witness:
  "map log_date (dailyLogs (upsertDailyLog array_sort
      (\<lambda>s. if s = ''2024-01-01'' then Some 1704067200000
           else if s = ''2024-01-02'' then Some 1704153600000 else None)
      \<lparr>userId = ''u1'', exercises = [], weeklyTemplate = [],
        dailyLogs = [\<lparr>log_date = ''2024-01-02'', log_exercises = []\<rparr>],
        groups = [], activeSyncedGroupId = None\<rparr>
      \<lparr>log_date = ''2024-01-01'', log_exercises = []\<rparr>))
    = [''2024-01-01'', ''2024-01-02'']
   \<and> distinct (map log_date [\<lparr>log_date = ''2024-01-02'', log_exercises = []\<rparr>])
   \<and> sorted (map (\<lambda>l. the ((\<lambda>s. if s = ''2024-01-01'' then Some (1704067200000::int)
           else if s = ''2024-01-02'' then Some 1704153600000 else None) (log_date l)))
        (dailyLogs (upsertDailyLog array_sort
      (\<lambda>s. if s = ''2024-01-01'' then Some 1704067200000
           else if s = ''2024-01-02'' then Some 1704153600000 else None)
      \<lparr>userId = ''u1'', exercises = [], weeklyTemplate = [],
        dailyLogs = [\<lparr>log_date = ''2024-01-02'', log_exercises = []\<rparr>],
        groups = [], activeSyncedGroupId = None\<rparr>
      \<lparr>log_date = ''2024-01-01'', log_exercises = []\<rparr>)))
   \<and> mset (dailyLogs (upsertDailyLog array_sort
      (\<lambda>s. if s = ''2024-01-01'' then Some 1704067200000
           else if s = ''2024-01-02'' then Some 1704153600000 else None)
      \<lparr>userId = ''u1'', exercises = [], weeklyTemplate = [],
        dailyLogs = [\<lparr>log_date = ''2024-01-02'', log_exercises = []\<rparr>,
                     \<lparr>log_date = ''2024-01-01'', log_exercises = []\<rparr>],
        groups = [], activeSyncedGroupId = None\<rparr>
      \<lparr>log_date = ''2024-01-02'', log_exercises =
          [\<lparr>le_exerciseId = ''e1'', le_name = ''Squat'', le_sets = [], le_notes = None\<rparr>]\<rparr>))
     = {#\<lparr>log_date = ''2024-01-02'', log_exercises =
            [\<lparr>le_exerciseId = ''e1'', le_name = ''Squat'', le_sets = [], le_notes = None\<rparr>]\<rparr>,
         \<lparr>log_date = ''2024-01-01'', log_exercises = []\<rparr>#}"
proof -
  let ?ms = "\<lambda>s. if s = ''2024-01-01'' then Some (1704067200000::int)
           else if s = ''2024-01-02'' then Some 1704153600000 else None"
  let ?d = "\<lparr>userId = ''u1'', exercises = [], weeklyTemplate = [],
        dailyLogs = [\<lparr>log_date = ''2024-01-02'', log_exercises = []\<rparr>],
        groups = [], activeSyncedGroupId = None\<rparr>"
  let ?lg = "\<lparr>log_date = ''2024-01-01'', log_exercises = []\<rparr>"
  let ?d2 = "\<lparr>userId = ''u1'', exercises = [], weeklyTemplate = [],
        dailyLogs = [\<lparr>log_date = ''2024-01-02'', log_exercises = []\<rparr>,
                     \<lparr>log_date = ''2024-01-01'', log_exercises = []\<rparr>],
        groups = [], activeSyncedGroupId = None\<rparr>"
  let ?lg2 = "\<lparr>log_date = ''2024-01-02'', log_exercises =
          [\<lparr>le_exerciseId = ''e1'', le_name = ''Squat'', le_sets = [], le_notes = None\<rparr>]\<rparr>"
  have dist: "distinct (map log_date (dailyLogs ?d))"
    by simp
  have dist2: "distinct (map log_date (dailyLogs ?d2))"
    by simp
  have dates: "(\<forall>l \<in> set (dailyLogs ?d). ?ms (log_date l) \<noteq> None) \<and> ?ms (log_date ?lg) \<noteq> None"
    by simp
  from C9_upsert_daily_log [of array_sort ?ms ?d ?lg] sort_contract_array_sort dist dates
  have "sorted (map (\<lambda>l. the (?ms (log_date l))) (dailyLogs (upsertDailyLog array_sort ?ms ?d ?lg)))"
    by blast
  moreover have "map log_date (dailyLogs (upsertDailyLog array_sort ?ms ?d ?lg))
      = [''2024-01-01'', ''2024-01-02'']"
    by (simp add: upsertDailyLog_def array_sort_def date_cmp_def)
  moreover from C9_upsert_daily_log [of array_sort ?ms ?d2 ?lg2] sort_contract_array_sort dist2
  have "mset (dailyLogs (upsertDailyLog array_sort ?ms ?d2 ?lg2))
     = add_mset ?lg2 (filter_mset (\<lambda>l. log_date l \<noteq> log_date ?lg2) (mset (dailyLogs ?d2)))"
    by blast
  then have "mset (dailyLogs (upsertDailyLog array_sort ?ms ?d2 ?lg2))
     = {#?lg2, \<lparr>log_date = ''2024-01-01'', log_exercises = []\<rparr>#}"
    by simp
  ultimately show ?thesis
    by simp
qed
text \<open>
  C10 (counterexample): an occurrence of \<open>movement\<close> beyond the fourth is not ignored. It starts
  no column, but it ends the fourth one: with five occurrences in the header, the text of a
  data line from the fifth occurrence on belongs to no column, and a line whose sets and reps
  stand there yields no exercise for weekday 5. With the fifth header word replaced by another
  word, the same data line yields an exercise for weekday 5.
\<close>

theorem C10_counterexample:
  "occurrences (toLowerCase
      ''Movement Sets   Movement Sets   Movement Sets   Movement Sets   Movement Sets   '')
     = [0, 16, 32, 48, 64]
   \<and> parseFullWorkoutPlanFromText
       (''Movement Sets   Movement Sets   Movement Sets   Movement Sets   Movement Sets   ''
        @ [CHR 0x0A]
        @ ''                                                Deadlift        3 5'') 5
     = None
   \<and> occurrences (toLowerCase
      ''Movement Sets   Movement Sets   Movement Sets   Movement Sets   Exercise Sets   '')
     = [0, 16, 32, 48]
   \<and> parseFullWorkoutPlanFromText
       (''Movement Sets   Movement Sets   Movement Sets   Movement Sets   Exercise Sets   ''
        @ [CHR 0x0A]
        @ ''                                                Deadlift        3 5'') 5
     = Some [\<lparr>item_name = ''Deadlift'', targetSets = 3, targetReps = Some ''5'',
               originalIndex = Some 0\<rparr>]"
  by code_simp

text \<open>
  C10 (amended): for every pasted text with no line that is a weekday name and with a line that
  contains \<open>movement\<close> and \<open>sets\<close>, the header row is the first line that contains \<open>movement\<close>,
  \<open>sets\<close> and \<open>reps\<close>, or, when there is none, the first that contains \<open>movement\<close> and
  \<open>sets\<close>. The first four occurrences of \<open>movement\<close> in the lowercased header, from left to
  right, start the columns of the weekdays 1, 2, 4 and 5 in this order; a column ends one
  character before the next occurrence of \<open>movement\<close> (also when that is the fifth), and at the
  length of the header when there is no next occurrence. The plan has a key only for those of
  these weekdays whose column yields at least one exercise over the non-blank lines after the
  header, and maps it to the exercises of that column, tagged from 0.
\<close>

theorem C10_parse_columns:
  assumes "\<forall>l \<in> set (plan_lines rawText). weekday_of l = None"
    and "\<exists>l \<in> set (plan_lines rawText). mentions_movement_sets l"
  shows "\<exists>h. header_row (plan_lines rawText) h
       \<and> findHeader 0 (plan_lines rawText) = Some h
       \<and> map fst (spec_columns (plan_lines rawText ! h))
           = take (length (occurrences (toLowerCase (plan_lines rawText ! h)))) [1, 2, 4, 5]
       \<and> map (\<lambda>c. fst (snd c)) (spec_columns (plan_lines rawText ! h))
           = take 4 (occurrences (toLowerCase (plan_lines rawText ! h)))
       \<and> (\<forall>d. parseFullWorkoutPlanFromText rawText d =
              (case map_of (spec_columns (plan_lines rawText ! h)) d of
                 None \<Rightarrow> None
               | Some (s, e) \<Rightarrow>
                   if column_items (drop (Suc h) (plan_lines rawText)) s e = [] then None
                   else Some (tagged_from 0
                                (column_items (drop (Suc h) (plan_lines rawText)) s e))))
       \<and> dom (parseFullWorkoutPlanFromText rawText) \<subseteq> {1, 2, 4, 5}"
proof -
  define lines where "lines = plan_lines rawText"
  note a = assms [folded lines_def]
  have "\<forall>l \<in> set (take 5 lines). weekday_of l = None"
    using a(1) by (meson in_set_takeD)
  then have "findIndex (\<lambda>l. weekday_of l \<noteq> None) (take 5 lines) = None"
    by (simp add: findIndex_None)
  then have det: "detectDay (enumerate 0 (take 5 lines)) = None"
    by (simp add: detectDay_enumerate)
  from a(2) obtain j where "j < length lines" "mentions_movement_sets (lines ! j)"
    by (auto simp: in_set_conv_nth)
  with findHeader_exists [of 0 j lines] obtain h where h: "findHeader 0 lines = Some h"
    by auto
  have hr: "header_row lines h"
    using h by (rule findHeader_header_row)
  define header where "header = lines ! h"
  define occ where "occ = occurrences (toLowerCase header)"
  define cols where "cols = spec_columns header"
  define dataLines where "dataLines = drop (Suc h) lines"
  have cols_code: "columnDefinitions header occ = cols"
    unfolding occ_def cols_def by (rule columnDefinitions_spec)
  have days: "map fst cols = take (length occ) [1, 2, 4, 5]"
    using map_fst_columnDefinitions [of header occ]
    by (simp add: cols_code dayOrderForColumns_def)
  have "length dayOrderForColumns = 4"
    by (simp add: dayOrderForColumns_def)
  then have starts: "map (\<lambda>c. fst (snd c)) cols = take 4 occ"
    using map_start_columnDefinitions [of header occ]
    by (simp add: cols_code)
  have dist: "distinct (map fst cols)"
    using distinct_columnDefinitions [of header occ] by (simp add: cols_code)
  have wf: "\<forall>c \<in> set cols. fst (snd c) \<le> Suc (snd (snd c))"
    using columnDefinitions_bounds [of _ header] by (simp add: cols_code [symmetric] occ_def)
  have in_days: "d \<in> {1, 2, 4, 5}" if "map_of cols d = Some v" for d v
  proof -
    from that have "(d, v) \<in> set cols"
      by (rule map_of_SomeD)
    then have "d \<in> set (map fst cols)"
      by force
    then have "d \<in> set [1, 2, 4, 5]"
      unfolding days by (rule in_set_takeD)
    then show ?thesis
      by simp
  qed
  let ?spec = "\<lambda>d. case map_of cols d of
                 None \<Rightarrow> None
               | Some (s, e) \<Rightarrow>
                   if column_items dataLines s e = [] then None
                   else Some (tagged_from 0 (column_items dataLines s e))"
  have res: "parseFullWorkoutPlanFromText rawText d = ?spec d" for d
  proof (cases "occ = []")
    case True
    then have "cols = []"
      by (simp add: cols_code [symmetric] columnDefinitions_def)
    moreover have "parseFullWorkoutPlanFromText rawText d = None"
      using True
      by (simp add: parseFullWorkoutPlanFromText_def lines_def [symmetric] det h
          colStartsFrom_occurrences header_def [symmetric] occ_def [symmetric])
    ultimately show ?thesis
      by simp
  next
    case False
    define temp where "temp = fold (processLine cols) dataLines (\<lambda>dayKey. [])"
    have p: "parseFullWorkoutPlanFromText rawText d
               = (if d < length DAYS_OF_WEEK \<and> temp d \<noteq> [] then Some (temp d) else None)"
      using False
      by (simp add: parseFullWorkoutPlanFromText_def lines_def [symmetric] det h
          colStartsFrom_occurrences header_def [symmetric] occ_def [symmetric]
          cols_code dataLines_def [symmetric] temp_def [symmetric] Let_def)
    have t: "temp d = (case map_of cols d of
                         None \<Rightarrow> []
                       | Some (s, e) \<Rightarrow> tagged_from 0 (column_items dataLines s e))"
      unfolding temp_def fold_processLine [OF dist wf] find_fst_map_of
      by (simp split: option.splits prod.splits)
    show ?thesis
    proof (cases "map_of cols d")
      case None
      with p t show ?thesis by simp
    next
      case (Some v)
      obtain s e where v: "v = (s, e)" by (cases v)
      from in_days [OF Some] have "d < length DAYS_OF_WEEK"
        by (auto simp: DAYS_OF_WEEK_def)
      moreover have "tagged_from 0 (column_items dataLines s e) = [] \<longleftrightarrow> column_items dataLines s e = []"
        using length_tagged_from [of 0 "column_items dataLines s e"]
        by (metis length_0_conv)
      ultimately show ?thesis
        using p t Some v by simp
    qed
  qed
  have "dom (parseFullWorkoutPlanFromText rawText) \<subseteq> {1, 2, 4, 5}"
  proof
    fix d assume "d \<in> dom (parseFullWorkoutPlanFromText rawText)"
    then have "?spec d \<noteq> None"
      by (auto simp: res)
    then obtain v where "map_of cols d = Some v"
      by (cases "map_of cols d") auto
    then show "d \<in> {1, 2, 4, 5}"
      by (rule in_days)
  qed
  with h hr days starts res show ?thesis
    unfolding lines_def header_def occ_def cols_def dataLines_def by blast
qed

theorem C10_parse_columns_witness:
  "dom (parseFullWorkoutPlanFromText
     (''Movement Sets Reps   Movement Sets Reps'' @ [CHR 0x0A]
      @ ''Squat    3    5      Bench 4 8'' @ [CHR 0x0A] @ ''Row 3 10'')) \<subseteq> {1, 2, 4, 5}
   \<and> parseFullWorkoutPlanFromText
     (''Movement Sets Reps   Movement Sets Reps'' @ [CHR 0x0A]
      @ ''Squat    3    5      Bench 4 8'' @ [CHR 0x0A] @ ''Row 3 10'') 1
     = Some [\<lparr>item_name = ''Squat'', targetSets = 3, targetReps = Some ''5'',
               originalIndex = Some 0\<rparr>,
             \<lparr>item_name = ''Row'', targetSets = 3, targetReps = Some ''10'',
               originalIndex = Some 1\<rparr>]
   \<and> parseFullWorkoutPlanFromText
     (''Movement Sets Reps   Movement Sets Reps'' @ [CHR 0x0A]
      @ ''Squat    3    5      Bench 4 8'' @ [CHR 0x0A] @ ''Row 3 10'') 2
     = Some [\<lparr>item_name = ''Bench'', targetSets = 4, targetReps = Some ''8'',
               originalIndex = Some 0\<rparr>]"
proof -
  define raw where "raw = ''Movement Sets Reps   Movement Sets Reps'' @ [CHR 0x0A]
      @ ''Squat    3    5      Bench 4 8'' @ [CHR 0x0A] @ ''Row 3 10''"
  have 1: "\<forall>l \<in> set (plan_lines raw). weekday_of l = None"
    unfolding raw_def by code_simp
  have 2: "\<exists>l \<in> set (plan_lines raw). mentions_movement_sets l"
    unfolding raw_def by code_simp
  from C10_parse_columns [OF 1 2]
  have "dom (parseFullWorkoutPlanFromText raw) \<subseteq> {1, 2, 4, 5}"
    by blast
  moreover have "parseFullWorkoutPlanFromText raw 1
     = Some [\<lparr>item_name = ''Squat'', targetSets = 3, targetReps = Some ''5'',
               originalIndex = Some 0\<rparr>,
             \<lparr>item_name = ''Row'', targetSets = 3, targetReps = Some ''10'',
               originalIndex = Some 1\<rparr>]"
    unfolding raw_def by code_simp
  moreover have "parseFullWorkoutPlanFromText raw 2
     = Some [\<lparr>item_name = ''Bench'', targetSets = 4, targetReps = Some ''8'',
               originalIndex = Some 0\<rparr>]"
    unfolding raw_def by code_simp
  ultimately show ?thesis
    unfolding raw_def by (intro conjI)
qed

end
